theory Spec2Isabelle
  imports Main
begin

section \<open>JavaScript values of the provider payload\<close>

text \<open>
  The provider call \<^verbatim>\<open>api.getData(ticker)\<close> answers with an arbitrary JavaScript value.
  The pipeline inspects it with \<^verbatim>\<open>=== null\<close>, \<^verbatim>\<open>typeof\<close>, \<^verbatim>\<open>== null\<close>, truthiness,
  \<^verbatim>\<open>isNaN\<close> and \<^verbatim>\<open>new Date(...)\<close>. Field values are modelled as: undefined, null, a
  boolean, a number (an integer or NaN; fractions are not modelled), a string, or a Date
  object (whose time value is a number of milliseconds, or NaN for an invalid Date,
  written \<open>None\<close>).
\<close>

datatype jsval =
    JUndefined
  | JNull
  | JBool bool
  | JNum int
  | JNaN
  | JStr string
  | JDate "int option"

text \<open>The object the provider documents: \<^verbatim>\<open>{zacksRankText, zacksRank, updatedAt}\<close>.
  A property the object does not have reads as \<open>JUndefined\<close>.\<close>

record data =
  zacksRankText :: jsval
  zacksRank :: jsval
  updatedAt :: jsval

text \<open>A response is either a bare value (null, a primitive, a Date) or an object with
  properties.\<close>

datatype payload = PValue jsval | PRecord data

text \<open>\<^verbatim>\<open>typeof data === "object"\<close>: true of null, of a Date and of every other object.\<close>

fun typeof_object :: "payload \<Rightarrow> bool" where
  "typeof_object (PRecord d) = True"
| "typeof_object (PValue JNull) = True"
| "typeof_object (PValue (JDate t)) = True"
| "typeof_object (PValue v) = False"

text \<open>Reading the three properties off a response that is an object (a Date has none of
  them).\<close>

fun properties :: "payload \<Rightarrow> data" where
  "properties (PRecord d) = d"
| "properties (PValue v) = \<lparr>zacksRankText = JUndefined, zacksRank = JUndefined, updatedAt = JUndefined\<rparr>"

text \<open>\<^verbatim>\<open>x == null\<close> holds of null and undefined only.\<close>

fun loose_null :: "jsval \<Rightarrow> bool" where
  "loose_null JUndefined = True"
| "loose_null JNull = True"
| "loose_null v = False"

text \<open>JavaScript truthiness, as \<^verbatim>\<open>!x\<close> and \<^verbatim>\<open>if (x)\<close> read it.\<close>

fun truthy :: "jsval \<Rightarrow> bool" where
  "truthy JUndefined = False"
| "truthy JNull = False"
| "truthy (JBool b) = b"
| "truthy (JNum n) = (n \<noteq> 0)"
| "truthy JNaN = False"
| "truthy (JStr s) = (s \<noteq> [])"
| "truthy (JDate t) = True"

fun truthy_payload :: "payload \<Rightarrow> bool" where
  "truthy_payload (PRecord d) = True"
| "truthy_payload (PValue v) = truthy v"

section \<open>Environment of one row\<close>

text \<open>
  Everything outside the program that one row's unit of work observes:
  \<^item> \<open>api k\<close>: what the \<open>k\<close>-th call of \<^verbatim>\<open>api.getData\<close> for the row's ticker does;
  \<^item> \<open>clock\<close>: the time \<^verbatim>\<open>new Date()\<close> reads (milliseconds);
  \<^item> \<open>dateParse\<close>: the time value of \<^verbatim>\<open>new Date(s)\<close> for a string, \<open>None\<close> when it is NaN;
  \<^item> \<open>stringIsNaN\<close>: whether \<^verbatim>\<open>isNaN(s)\<close> holds of a string;
  \<^item> \<open>resolve_fault\<close>, \<open>save_fault\<close>: store calls of the resolver and the writer whose
    promise is rejected (a refused or closed pool, a statement the store refuses). A
    connection that breaks while the process runs is not among them: it rejects no
    promise the unit awaits before it ends the process, and is the event
    \<open>ConnectionLost\<close> of the process.
\<close>

datatype api_result = Throws | Returns payload

datatype save_fault = NoFault | ConnectFails | QueryFails | QueryAndRollbackFail

record env =
  api :: "int \<Rightarrow> api_result"
  clock :: int
  dateParse :: "string \<Rightarrow> int option"
  stringIsNaN :: "string \<Rightarrow> bool"
  resolve_fault :: bool
  save_fault :: save_fault

section \<open>Run statistics\<close>

text \<open>The eight counters \<^verbatim>\<open>main\<close> declares.\<close>

record stats =
  totalProcessed :: nat
  successfulSaves :: nat
  failedRetrievals :: nat
  failedSaves :: nat
  noRankingStocks :: nat
  totalInserts :: nat
  totalUpdates :: nat
  failedProcessing :: nat

definition stats0 :: stats where
  "stats0 = \<lparr>totalProcessed = 0, successfulSaves = 0, failedRetrievals = 0, failedSaves = 0,
     noRankingStocks = 0, totalInserts = 0, totalUpdates = 0, failedProcessing = 0\<rparr>"

section \<open>Ranking fetcher: getDataWithRetry\<close>

text \<open>What the fetcher does that the outside can observe: a provider call (with the attempt
  number) and a backoff wait (with its length in milliseconds).\<close>

datatype event = Call int | Wait int

text \<open>\<^verbatim>\<open>new Date(data.updatedAt)\<close> for a string or a Date: its time value.\<close>

fun newDate :: "env \<Rightarrow> jsval \<Rightarrow> int option" where
  "newDate e (JStr s) = dateParse e s"
| "newDate e (JDate t) = t"
| "newDate e v = None"

text \<open>Lines 222-239: the value \<^verbatim>\<open>data.updatedAt\<close> is overwritten with.\<close>

fun isStringOrDate :: "jsval \<Rightarrow> bool" where
  "isStringOrDate (JStr s) = True"
| "isStringOrDate (JDate t) = True"
| "isStringOrDate v = False"

definition normalizeUpdatedAt :: "env \<Rightarrow> jsval \<Rightarrow> jsval" where
  "normalizeUpdatedAt e u =
     (if isStringOrDate u then
        (case newDate e u of
           Some t \<Rightarrow> JDate (Some t)
         | None \<Rightarrow> JDate (Some (clock e)))
      else JDate (Some (clock e)))"

text \<open>The body of the outer \<^verbatim>\<open>try\<close> for one attempt (lines 194-241): it either raises into
  the \<^verbatim>\<open>catch\<close> of the retry loop, or returns from the function.\<close>

datatype attempt_result = Raised | Finished "data option" stats

definition attemptBody :: "env \<Rightarrow> int \<Rightarrow> stats \<Rightarrow> attempt_result" where
  "attemptBody e attempt st =
     (case api e attempt of
        Throws \<Rightarrow> Raised
      | Returns p \<Rightarrow>
          if p = PValue JNull then
            Finished None (st\<lparr>noRankingStocks := noRankingStocks st + 1\<rparr>)
          else if \<not> typeof_object p then Raised
          else if loose_null (zacksRank (properties p)) \<or> loose_null (zacksRankText (properties p)) then
            Finished None (st\<lparr>noRankingStocks := noRankingStocks st + 1\<rparr>)
          else
            Finished (Some ((properties p)\<lparr>updatedAt := normalizeUpdatedAt e (updatedAt (properties p))\<rparr>)) st)"

text \<open>The \<^verbatim>\<open>for\<close> loop from a given attempt number on, and what follows it (lines 193-254).
  The result is the returned value (\<open>None\<close> for \<^verbatim>\<open>null\<close>), the counters and the events in
  order.\<close>

function getDataWithRetry_from ::
  "env \<Rightarrow> int \<Rightarrow> int \<Rightarrow> int \<Rightarrow> stats \<Rightarrow> data option \<times> stats \<times> event list" where
  "getDataWithRetry_from e attempt maxRetries delay st =
     (if attempt \<le> maxRetries then
        (case attemptBody e attempt st of
           Finished r st' \<Rightarrow> (r, st', [Call attempt])
         | Raised \<Rightarrow>
             (case getDataWithRetry_from e (attempt + 1) maxRetries delay st of
                (r, st', evs) \<Rightarrow>
                  (r, st', Call attempt # (if attempt < maxRetries then [Wait delay] else []) @ evs)))
      else
        (None,
         st\<lparr>failedRetrievals := failedRetrievals st + 1, noRankingStocks := noRankingStocks st + 1\<rparr>,
         []))"
  by pat_completeness auto
termination
  by (relation "measure (\<lambda>(e, attempt, maxRetries, delay, st). nat (maxRetries + 1 - attempt))") auto

definition getDataWithRetry ::
  "env \<Rightarrow> int \<Rightarrow> int \<Rightarrow> stats \<Rightarrow> data option \<times> stats \<times> event list" where
  "getDataWithRetry e maxRetries delay st = getDataWithRetry_from e 1 maxRetries delay st"

text \<open>The call as \<^verbatim>\<open>processCSV\<close> makes it: \<^verbatim>\<open>maxRetries = 3, delay = 1000\<close>.\<close>

definition getDataWithRetry_default :: "env \<Rightarrow> stats \<Rightarrow> data option \<times> stats \<times> event list" where
  "getDataWithRetry_default e st = getDataWithRetry e 3 1000 st"

text \<open>The fetcher of \<^verbatim>\<open>src/index.js\<close> (lines 48-60): the provider's value is returned as it
  is, \<open>None\<close> stands for the \<^verbatim>\<open>null\<close> after the loop.\<close>

function index_getDataWithRetry_from ::
  "env \<Rightarrow> int \<Rightarrow> int \<Rightarrow> int \<Rightarrow> payload option \<times> event list" where
  "index_getDataWithRetry_from e attempt maxRetries delay =
     (if attempt \<le> maxRetries then
        (case api e attempt of
           Returns p \<Rightarrow> (Some p, [Call attempt])
         | Throws \<Rightarrow>
             (case index_getDataWithRetry_from e (attempt + 1) maxRetries delay of
                (r, evs) \<Rightarrow>
                  (r, Call attempt # (if attempt < maxRetries then [Wait delay] else []) @ evs)))
      else (None, []))"
  by pat_completeness auto
termination
  by (relation "measure (\<lambda>(e, attempt, maxRetries, delay). nat (maxRetries + 1 - attempt))") auto

definition index_getDataWithRetry :: "env \<Rightarrow> int \<Rightarrow> int \<Rightarrow> payload option \<times> event list" where
  "index_getDataWithRetry e maxRetries delay = index_getDataWithRetry_from e 1 maxRetries delay"

subsection \<open>Reading a trace\<close>

text \<open>The attempt numbers of the provider calls in a trace, and the lengths of its waits.\<close>

fun calls :: "event list \<Rightarrow> int list" where
  "calls [] = []"
| "calls (Call k # evs) = k # calls evs"
| "calls (Wait d # evs) = calls evs"

fun waits :: "event list \<Rightarrow> int list" where
  "waits [] = []"
| "waits (Call k # evs) = waits evs"
| "waits (Wait d # evs) = d # waits evs"

text \<open>An attempt ends in the \<^verbatim>\<open>catch\<close> of the retry loop when the provider call throws, or
  when line 212 throws because the answer is not an object.\<close>

definition attempt_fails :: "env \<Rightarrow> int \<Rightarrow> bool" where
  "attempt_fails e a = (case api e a of Throws \<Rightarrow> True | Returns p \<Rightarrow> \<not> typeof_object p)"

section \<open>The relational store\<close>

text \<open>
  The two tables \<^verbatim>\<open>db-setup.js\<close> creates:
  \<^verbatim>\<open>stocks (id SERIAL PRIMARY KEY, ticker UNIQUE NOT NULL, name NOT NULL)\<close> and
  \<^verbatim>\<open>zacks_rankings (id SERIAL PRIMARY KEY, stock_id REFERENCES stocks(id), zacksRankText,
  zacksRank, updatedAt, UNIQUE(stock_id, updatedAt))\<close>.
  Rows are kept in insertion order. Each \<^verbatim>\<open>SERIAL\<close> column draws from a sequence, modelled
  by the last number it gave out; an \<^verbatim>\<open>INSERT\<close> draws a number before it looks for a
  conflict, so a conflicting insert leaves a gap. Column values of a ranking are kept as
  the JavaScript values the statement was given (undefined is sent as \<^verbatim>\<open>NULL\<close>); type
  conversions and length limits of the columns are not modelled, a statement failing on
  them is a store fault of the row's environment.
\<close>

record stock =
  s_id :: nat
  s_ticker :: string
  s_name :: string

record ranking =
  rk_id :: nat
  rk_stock_id :: nat
  rk_zacksRankText :: jsval
  rk_zacksRank :: jsval
  rk_updatedAt :: jsval

record store =
  stocks :: "stock list"
  stocks_id_seq :: nat
  zacks_rankings :: "ranking list"
  zacks_rankings_id_seq :: nat

definition empty_store :: store where
  "empty_store = \<lparr>stocks = [], stocks_id_seq = 0, zacks_rankings = [], zacks_rankings_id_seq = 0\<rparr>"

datatype sql_error = UniqueViolation | ForeignKeyViolation

text \<open>A parameter as the driver sends it: \<^verbatim>\<open>undefined\<close> becomes \<^verbatim>\<open>NULL\<close>.\<close>

fun sql_param :: "jsval \<Rightarrow> jsval" where
  "sql_param JUndefined = JNull"
| "sql_param v = v"

text \<open>\<^verbatim>\<open>SELECT id FROM stocks WHERE ticker = $1\<close>: the ids of the matching rows.\<close>

definition select_stock_ids :: "store \<Rightarrow> string \<Rightarrow> nat list" where
  "select_stock_ids db tk = map s_id (filter (\<lambda>s. s_ticker s = tk) (stocks db))"

text \<open>\<^verbatim>\<open>INSERT INTO stocks (ticker, name) VALUES ($1, $2) RETURNING id\<close>: refused with a
  unique violation (code 23505) when the ticker is there already.\<close>

definition insert_stock :: "store \<Rightarrow> string \<Rightarrow> string \<Rightarrow> (sql_error + nat) \<times> store" where
  "insert_stock db tk nm =
     (let new_id = stocks_id_seq db + 1;
          db1 = db\<lparr>stocks_id_seq := new_id\<rparr>
      in if \<exists>s \<in> set (stocks db). s_ticker s = tk then (Inl UniqueViolation, db1)
         else (Inr new_id, db1\<lparr>stocks := stocks db @ [\<lparr>s_id = new_id, s_ticker = tk, s_name = nm\<rparr>]\<rparr>))"

text \<open>\<^verbatim>\<open>INSERT INTO stocks (ticker, name) VALUES ($1, $2) ON CONFLICT (ticker) DO UPDATE SET
  name = $2 RETURNING id\<close>: one atomic statement; on a conflict the row of that ticker gets
  the new name and its id is returned.\<close>

definition upsert_stock :: "store \<Rightarrow> string \<Rightarrow> string \<Rightarrow> nat \<times> store" where
  "upsert_stock db tk nm =
     (let new_id = stocks_id_seq db + 1;
          db1 = db\<lparr>stocks_id_seq := new_id\<rparr>
      in case filter (\<lambda>s. s_ticker s = tk) (stocks db) of
           s # others \<Rightarrow>
             (s_id s, db1\<lparr>stocks := map (\<lambda>x. if s_ticker x = tk then x\<lparr>s_name := nm\<rparr> else x) (stocks db)\<rparr>)
         | [] \<Rightarrow>
             (new_id, db1\<lparr>stocks := stocks db @ [\<lparr>s_id = new_id, s_ticker = tk, s_name = nm\<rparr>]\<rparr>))"

text \<open>The row of \<^verbatim>\<open>zacks_rankings\<close> a statement would conflict with: same \<^verbatim>\<open>stock_id\<close>, same
  \<^verbatim>\<open>updatedAt\<close>; a \<^verbatim>\<open>NULL\<close> in \<^verbatim>\<open>updatedAt\<close> conflicts with nothing.\<close>

definition ranking_conflicts :: "nat \<Rightarrow> jsval \<Rightarrow> ranking \<Rightarrow> bool" where
  "ranking_conflicts stockId u r =
     (rk_stock_id r = stockId \<and> sql_param u \<noteq> JNull \<and> rk_updatedAt r = sql_param u)"

definition new_ranking :: "nat \<Rightarrow> nat \<Rightarrow> data \<Rightarrow> ranking" where
  "new_ranking new_id stockId d =
     \<lparr>rk_id = new_id, rk_stock_id = stockId, rk_zacksRankText = sql_param (zacksRankText d),
      rk_zacksRank = sql_param (zacksRank d), rk_updatedAt = sql_param (updatedAt d)\<rparr>"

text \<open>\<^verbatim>\<open>INSERT INTO zacks_rankings (stock_id, zacksRankText, zacksRank, updatedAt) VALUES
  ($1, $2, $3, $4)\<close>.\<close>

definition insert_ranking :: "store \<Rightarrow> nat \<Rightarrow> data \<Rightarrow> (sql_error + unit) \<times> store" where
  "insert_ranking db stockId d =
     (let new_id = zacks_rankings_id_seq db + 1;
          db1 = db\<lparr>zacks_rankings_id_seq := new_id\<rparr>
      in if \<exists>r \<in> set (zacks_rankings db). ranking_conflicts stockId (updatedAt d) r
           then (Inl UniqueViolation, db1)
         else if \<not> (\<exists>s \<in> set (stocks db). s_id s = stockId) then (Inl ForeignKeyViolation, db1)
         else (Inr (), db1\<lparr>zacks_rankings := zacks_rankings db @ [new_ranking new_id stockId d]\<rparr>))"

text \<open>The statement of lines 160-164: \<^verbatim>\<open>INSERT ... ON CONFLICT (stock_id, updatedAt) DO UPDATE
  SET zacksRankText = EXCLUDED.zacksRankText, zacksRank = EXCLUDED.zacksRank RETURNING
  (xmax = 0) AS inserted\<close>. The returned flag is true for a fresh row and false for an
  update in place.\<close>

definition upsert_ranking :: "store \<Rightarrow> nat \<Rightarrow> data \<Rightarrow> (sql_error + bool) \<times> store" where
  "upsert_ranking db stockId d =
     (let new_id = zacks_rankings_id_seq db + 1;
          db1 = db\<lparr>zacks_rankings_id_seq := new_id\<rparr>
      in if \<exists>r \<in> set (zacks_rankings db). ranking_conflicts stockId (updatedAt d) r
           then (Inr False,
                 db1\<lparr>zacks_rankings :=
                   map (\<lambda>r. if ranking_conflicts stockId (updatedAt d) r
                             then r\<lparr>rk_zacksRankText := sql_param (zacksRankText d),
                                    rk_zacksRank := sql_param (zacksRank d)\<rparr>
                             else r)
                       (zacks_rankings db)\<rparr>)
         else if \<not> (\<exists>s \<in> set (stocks db). s_id s = stockId) then (Inl ForeignKeyViolation, db1)
         else (Inr True, db1\<lparr>zacks_rankings := zacks_rankings db @ [new_ranking new_id stockId d]\<rparr>))"

section \<open>Stock identity resolver\<close>

text \<open>What an \<^verbatim>\<open>async\<close> function settles with: it returns a value or throws.\<close>

datatype 'a outcome = Threw | Returned 'a

text \<open>\<^verbatim>\<open>getOrCreateStockId\<close> (part_000, lines 116-141) run without another unit's statement
  between its own. A store fault makes it roll back and rethrow.\<close>

definition getOrCreateStockId :: "env \<Rightarrow> store \<Rightarrow> string \<Rightarrow> string \<Rightarrow> nat outcome \<times> store" where
  "getOrCreateStockId e db tk nm =
     (if resolve_fault e then (Threw, db)
      else
        (case select_stock_ids db tk of
           i # rows \<Rightarrow> (Returned i, db)
         | [] \<Rightarrow> (case upsert_stock db tk nm of (i, db') \<Rightarrow> (Returned i, db'))))"

text \<open>\<^verbatim>\<open>getStockId\<close> of \<^verbatim>\<open>src/index.js\<close> (lines 15-28; the function of part_000, lines 14-32,
  issues the same two statements): a lookup, then a plain insert.\<close>

definition index_getStockId :: "store \<Rightarrow> string \<Rightarrow> string \<Rightarrow> nat outcome \<times> store" where
  "index_getStockId db tk nm =
     (case select_stock_ids db tk of
        i # rows \<Rightarrow> (Returned i, db)
      | [] \<Rightarrow>
          (case insert_stock db tk nm of
             (Inr i, db') \<Rightarrow> (Returned i, db')
           | (Inl err, db') \<Rightarrow> (Threw, db')))"

subsection \<open>Concurrent calls of the resolver\<close>

text \<open>
  Each call of the resolver awaits its statements one by one, and the units of different
  rows run interleaved: between the lookup of one call and its insert, statements of
  other calls may run. A call is therefore modelled by its position: before the lookup,
  before the insert (the lookup found nothing), or settled. A schedule names, step by
  step, the call whose next statement the store executes.
\<close>

datatype position = AtSelect | AtInsert | Settled "nat outcome"

record call =
  c_ticker :: string
  c_name :: string
  c_at :: position

text \<open>One statement of a call of \<^verbatim>\<open>getOrCreateStockId\<close>.\<close>

definition resolve_step :: "call \<Rightarrow> store \<Rightarrow> call \<times> store" where
  "resolve_step c db =
     (case c_at c of
        AtSelect \<Rightarrow>
          (case select_stock_ids db (c_ticker c) of
             i # rows \<Rightarrow> (c\<lparr>c_at := Settled (Returned i)\<rparr>, db)
           | [] \<Rightarrow> (c\<lparr>c_at := AtInsert\<rparr>, db))
      | AtInsert \<Rightarrow>
          (case upsert_stock db (c_ticker c) (c_name c) of
             (i, db') \<Rightarrow> (c\<lparr>c_at := Settled (Returned i)\<rparr>, db'))
      | Settled r \<Rightarrow> (c, db))"

text \<open>One statement of a call of \<^verbatim>\<open>getStockId\<close> of \<^verbatim>\<open>src/index.js\<close>.\<close>

definition index_resolve_step :: "call \<Rightarrow> store \<Rightarrow> call \<times> store" where
  "index_resolve_step c db =
     (case c_at c of
        AtSelect \<Rightarrow>
          (case select_stock_ids db (c_ticker c) of
             i # rows \<Rightarrow> (c\<lparr>c_at := Settled (Returned i)\<rparr>, db)
           | [] \<Rightarrow> (c\<lparr>c_at := AtInsert\<rparr>, db))
      | AtInsert \<Rightarrow>
          (case insert_stock db (c_ticker c) (c_name c) of
             (Inr i, db') \<Rightarrow> (c\<lparr>c_at := Settled (Returned i)\<rparr>, db')
           | (Inl err, db') \<Rightarrow> (c\<lparr>c_at := Settled Threw\<rparr>, db'))
      | Settled r \<Rightarrow> (c, db))"

text \<open>Running a schedule: entry \<open>i\<close> lets call number \<open>i\<close> execute its next statement (an
  index past the last call does nothing).\<close>

fun run_schedule ::
  "(call \<Rightarrow> store \<Rightarrow> call \<times> store) \<Rightarrow> nat list \<Rightarrow> call list \<times> store \<Rightarrow> call list \<times> store" where
  "run_schedule step [] (cs, db) = (cs, db)"
| "run_schedule step (i # sched) (cs, db) =
     (if i < length cs then
        (case step (cs ! i) db of
           (c', db') \<Rightarrow> run_schedule step sched (cs[i := c'], db'))
      else run_schedule step sched (cs, db))"

definition new_call :: "string \<Rightarrow> string \<Rightarrow> call" where
  "new_call tk nm = \<lparr>c_ticker = tk, c_name = nm, c_at = AtSelect\<rparr>"

section \<open>Ranking writer\<close>

text \<open>\<^verbatim>\<open>isNaN(x)\<close>: whether \<^verbatim>\<open>Number(x)\<close> is NaN.\<close>

fun js_isNaN :: "env \<Rightarrow> jsval \<Rightarrow> bool" where
  "js_isNaN e JUndefined = True"
| "js_isNaN e JNull = False"
| "js_isNaN e (JBool b) = False"
| "js_isNaN e (JNum n) = False"
| "js_isNaN e JNaN = True"
| "js_isNaN e (JStr s) = stringIsNaN e s"
| "js_isNaN e (JDate t) = (t = None)"

text \<open>The guard of lines 145-150.\<close>

definition invalidRanking :: "env \<Rightarrow> data \<Rightarrow> bool" where
  "invalidRanking e d =
     (\<not> truthy (zacksRankText d) \<or> loose_null (zacksRank d) \<or> loose_null (updatedAt d)
      \<or> js_isNaN e (zacksRank d))"

text \<open>\<^verbatim>\<open>saveZacksRanking\<close> (part_000, lines 143-190). \<^verbatim>\<open>pool.connect()\<close> stands before the
  \<^verbatim>\<open>try\<close>, so a failure to connect throws without touching a counter; a failure inside
  the \<^verbatim>\<open>try\<close> is counted in the \<^verbatim>\<open>catch\<close> after the rollback and rethrown; when the rollback
  fails too, its error leaves the \<^verbatim>\<open>catch\<close> before the counters.\<close>

definition saveZacksRanking ::
  "env \<Rightarrow> store \<Rightarrow> stats \<Rightarrow> nat \<Rightarrow> data \<Rightarrow> unit outcome \<times> store \<times> stats" where
  "saveZacksRanking e db st stockId d =
     (if invalidRanking e d then
        (Returned (), db, st\<lparr>noRankingStocks := noRankingStocks st + 1\<rparr>)
      else
        (case save_fault e of
           ConnectFails \<Rightarrow> (Threw, db, st)
         | QueryAndRollbackFail \<Rightarrow> (Threw, db, st)
         | QueryFails \<Rightarrow>
             (Threw, db,
              st\<lparr>failedSaves := failedSaves st + 1, noRankingStocks := noRankingStocks st + 1\<rparr>)
         | NoFault \<Rightarrow>
             (case upsert_ranking db stockId d of
                (Inl err, db') \<Rightarrow>
                  (Threw, db',
                   st\<lparr>failedSaves := failedSaves st + 1, noRankingStocks := noRankingStocks st + 1\<rparr>)
              | (Inr isInserted, db') \<Rightarrow>
                  (Returned (), db',
                   (if isInserted then st\<lparr>totalInserts := totalInserts st + 1\<rparr>
                    else st\<lparr>totalUpdates := totalUpdates st + 1\<rparr>)
                   \<lparr>successfulSaves := successfulSaves st + 1\<rparr>))))"

text \<open>\<^verbatim>\<open>saveZacksRanking\<close> of \<^verbatim>\<open>src/index.js\<close> (lines 30-46; the function of part_000, lines
  34-54, does the same): a plain insert; a unique violation is logged and swallowed, any
  other error is rethrown.\<close>

definition index_saveZacksRanking :: "store \<Rightarrow> nat \<Rightarrow> data \<Rightarrow> unit outcome \<times> store" where
  "index_saveZacksRanking db stockId d =
     (case insert_ranking db stockId d of
        (Inr u, db') \<Rightarrow> (Returned (), db')
      | (Inl UniqueViolation, db') \<Rightarrow> (Returned (), db')
      | (Inl ForeignKeyViolation, db') \<Rightarrow> (Threw, db'))"

section \<open>Invariants and views of the store\<close>

text \<open>The key the constraint \<^verbatim>\<open>UNIQUE(stock_id, updatedAt)\<close> is about, the constraint itself
  (rows with a \<^verbatim>\<open>NULL\<close> in \<^verbatim>\<open>updatedAt\<close> are exempt), and the rows under one key.\<close>

definition ranking_key :: "ranking \<Rightarrow> nat \<times> jsval" where
  "ranking_key r = (rk_stock_id r, rk_updatedAt r)"

definition unique_rankings :: "store \<Rightarrow> bool" where
  "unique_rankings db =
     distinct (map ranking_key (filter (\<lambda>r. rk_updatedAt r \<noteq> JNull) (zacks_rankings db)))"

definition rankings_at :: "store \<Rightarrow> nat \<Rightarrow> jsval \<Rightarrow> ranking list" where
  "rankings_at db stockId u =
     filter (\<lambda>r. rk_stock_id r = stockId \<and> rk_updatedAt r = u) (zacks_rankings db)"

text \<open>The constraint \<^verbatim>\<open>ticker UNIQUE\<close>, the (id, ticker) pairs of the stocks, and the rows of
  one ticker.\<close>

definition unique_tickers :: "store \<Rightarrow> bool" where
  "unique_tickers db = distinct (map s_ticker (stocks db))"

definition stock_keys :: "store \<Rightarrow> (nat \<times> string) set" where
  "stock_keys db = (\<lambda>s. (s_id s, s_ticker s)) ` set (stocks db)"

definition rows_of :: "store \<Rightarrow> string \<Rightarrow> stock list" where
  "rows_of db tk = filter (\<lambda>s. s_ticker s = tk) (stocks db)"

text \<open>A settled call of the resolver is in order when it returned the id of a stored row
  of its ticker.\<close>

definition resolved_ok :: "store \<Rightarrow> call \<Rightarrow> bool" where
  "resolved_ok db c =
     (case c_at c of
        Settled (Returned i) \<Rightarrow> (i, c_ticker c) \<in> stock_keys db
      | Settled Threw \<Rightarrow> False
      | AtSelect \<Rightarrow> True
      | AtInsert \<Rightarrow> True)"

text \<open>The statements a call has still to execute.\<close>

fun steps_left :: "position \<Rightarrow> nat" where
  "steps_left AtSelect = 2"
| "steps_left AtInsert = 1"
| "steps_left (Settled r) = 0"

section \<open>Run coordinator\<close>

text \<open>
  The unit of work of one row (part_000, lines 268-286) after its first statement
  \<^verbatim>\<open>totalProcessed++\<close>: fetch, resolve, write, inside one \<^verbatim>\<open>try\<close> whose \<^verbatim>\<open>catch\<close> counts and
  does not rethrow. The result says how the unit's promise settles, for every way the
  provider and the store can reject a promise the unit awaits; a failure that rejects
  none of them and ends the process (\<open>ConnectionLost\<close>) never comes back to the unit. The
  statements of one unit run here without statements of other units in between; what the
  interleaving of resolver statements does is the subject of \<open>run_schedule\<close>.
\<close>

definition unitBody ::
  "env \<Rightarrow> string \<Rightarrow> string \<Rightarrow> store \<Rightarrow> stats \<Rightarrow> unit outcome \<times> store \<times> stats" where
  "unitBody e tk nm db st =
     (case getDataWithRetry_default e st of
        (None, st1, evs) \<Rightarrow> (Returned (), db, st1)
      | (Some d, st1, evs) \<Rightarrow>
          (case getOrCreateStockId e db tk nm of
             (Threw, db1) \<Rightarrow>
               (Returned (), db1,
                st1\<lparr>failedProcessing := failedProcessing st1 + 1,
                    noRankingStocks := noRankingStocks st1 + 1\<rparr>)
           | (Returned stockId, db1) \<Rightarrow>
               (case saveZacksRanking e db1 st1 stockId d of
                  (Threw, db2, st2) \<Rightarrow>
                    (Returned (), db2,
                     st2\<lparr>failedProcessing := failedProcessing st2 + 1,
                         noRankingStocks := noRankingStocks st2 + 1\<rparr>)
                | (Returned u, db2, st2) \<Rightarrow> (Returned (), db2, st2))))"

text \<open>
  \<^verbatim>\<open>processCSV\<close> (lines 257-303) reacts to events. The stream \<^verbatim>\<open>csv()\<close> returns yields a row
  (\<open>Data\<close>, with the environment its unit will meet), signals its end (\<open>End\<close>) or emits
  \<^verbatim>\<open>'error'\<close> itself (\<open>Error\<close>; an error of the file stream under it is not such an event,
  see \<open>ReadError\<close>); a unit started earlier finishes (\<open>UnitDone i\<close>, for the \<open>i\<close>-th
  handle of \<^verbatim>\<open>pendingPromises\<close>). A handle records how its unit settled, \<open>None\<close> while it
  runs.
\<close>

datatype stream_event = Data env string string | End | Error | UnitDone nat

datatype settlement = Resolved | Rejected

record unit_handle =
  u_env :: env
  u_ticker :: string
  u_name :: string
  u_state :: "unit outcome option"

record coordinator =
  pendingPromises :: "unit_handle list"
  ended :: bool
  settled :: "settlement option"
  co_store :: store
  co_stats :: stats

text \<open>\<^verbatim>\<open>Promise.all\<close>: rejected once one of the promises is rejected, resolved once all are
  fulfilled, pending otherwise.\<close>

definition promiseAll :: "unit outcome option list \<Rightarrow> settlement option" where
  "promiseAll hs =
     (if Some Threw \<in> set hs then Some Rejected
      else if None \<in> set hs then None
      else Some Resolved)"

text \<open>A promise settles once: settling it again changes nothing.\<close>

definition settle :: "settlement option \<Rightarrow> coordinator \<Rightarrow> coordinator" where
  "settle s c = (if settled c = None then c\<lparr>settled := s\<rparr> else c)"

text \<open>The reaction to one event. A row starts a unit: its synchronous first statement runs
  and the handle is pushed (no row arrives after the end of the stream). The end of the
  stream hands all handles to \<^verbatim>\<open>Promise.all\<close>, whose settlement settles \<^verbatim>\<open>processCSV\<close>. A
  stream error rejects.\<close>

fun coordinate :: "coordinator \<Rightarrow> stream_event \<Rightarrow> coordinator" where
  "coordinate c (Data e tk nm) =
     (if ended c then c
      else c\<lparr>pendingPromises :=
                pendingPromises c @ [\<lparr>u_env = e, u_ticker = tk, u_name = nm, u_state = None\<rparr>],
             co_stats := (co_stats c)\<lparr>totalProcessed := totalProcessed (co_stats c) + 1\<rparr>\<rparr>)"
| "coordinate c End =
     settle (promiseAll (map u_state (pendingPromises c))) (c\<lparr>ended := True\<rparr>)"
| "coordinate c Error = settle (Some Rejected) c"
| "coordinate c (UnitDone i) =
     (if i < length (pendingPromises c) \<and> u_state (pendingPromises c ! i) = None then
        (case unitBody (u_env (pendingPromises c ! i)) (u_ticker (pendingPromises c ! i))
                (u_name (pendingPromises c ! i)) (co_store c) (co_stats c) of
           (res, db', st') \<Rightarrow>
             (if ended c
              then settle (promiseAll (map u_state
                     ((pendingPromises c)[i := (pendingPromises c ! i)\<lparr>u_state := Some res\<rparr>])))
              else (\<lambda>c'. c'))
             (c\<lparr>pendingPromises := (pendingPromises c)[i := (pendingPromises c ! i)\<lparr>u_state := Some res\<rparr>],
                co_store := db', co_stats := st'\<rparr>))
      else c)"

text \<open>The events up to the one that settles the promise \<^verbatim>\<open>processCSV\<close> returns. The handlers
  stay in place after that: what they do while \<^verbatim>\<open>main\<close> closes the pool is part of
  \<open>closePool\<close> below.\<close>

fun processCSV :: "stream_event list \<Rightarrow> coordinator \<Rightarrow> coordinator" where
  "processCSV [] c = c"
| "processCSV (ev # evs) c = (if settled c \<noteq> None then c else processCSV evs (coordinate c ev))"

definition start :: "store \<Rightarrow> coordinator" where
  "start db0 = \<lparr>pendingPromises = [], ended = False, settled = None, co_store = db0, co_stats = stats0\<rparr>"

section \<open>The process\<close>

text \<open>The lines \<^verbatim>\<open>main\<close> and \<^verbatim>\<open>processCSV\<close> print themselves (the lines printed inside the units
  are left out), and the exit status.\<close>

datatype log_line =
    CsvCompleted
  | ErrorProcessingCSV
  | ConnectionsClosed
  | Counter string nat
  | MainError
  | ProgramCompleted

definition summary :: "stats \<Rightarrow> log_line list" where
  "summary st =
     [Counter ''Total processed'' (totalProcessed st),
      Counter ''Successful database operations'' (successfulSaves st),
      Counter ''Total inserts'' (totalInserts st),
      Counter ''Total updates'' (totalUpdates st),
      Counter ''Failed retrievals'' (failedRetrievals st),
      Counter ''Failed saves'' (failedSaves st),
      Counter ''Failed processing'' (failedProcessing st),
      Counter ''Stocks with no Zacks ranking'' (noRankingStocks st)]"

text \<open>
  What happens to the process while \<^verbatim>\<open>main\<close> runs. The handlers of \<^verbatim>\<open>processCSV\<close> react to
  the events of the parser stream (\<open>Stream\<close>). Two kinds of failure reach no handler of
  the program and end the process at once with status 1:
  \<^item> \<open>ReadError\<close>: the file stream under the parser (\<^verbatim>\<open>fs.createReadStream\<close>,
    \<^verbatim>\<open>stripBomStream()\<close>) emits \<^verbatim>\<open>'error'\<close>; the only \<^verbatim>\<open>error\<close> listener (line 299) is on the
    stream \<^verbatim>\<open>csv()\<close> returns, and \<^verbatim>\<open>pipe\<close> forwards no error;
  \<^item> \<open>ConnectionLost\<close>: a connection of the pool breaks, and the client emits \<^verbatim>\<open>'error'\<close>;
    neither the clients nor the pool are given an \<^verbatim>\<open>error\<close> listener.
  \<open>PoolClosed\<close> is the moment \<^verbatim>\<open>await pool.end()\<close> (line 310) returns.
\<close>

datatype process_event = Stream stream_event | ReadError | ConnectionLost | PoolClosed

text \<open>The \<^verbatim>\<open>finally\<close> of \<^verbatim>\<open>main\<close> (lines 309-320), entered once \<^verbatim>\<open>processCSV\<close> has settled, with
  the lines printed so far: it awaits \<^verbatim>\<open>pool.end()\<close>. Until that resolves the handlers of
  the stream stay in place and units in flight go on and count; then the counters are
  printed as they stand and the process exits with 0. \<open>None\<close>: \<^verbatim>\<open>pool.end()\<close> never
  resolves.\<close>

fun closePool :: "log_line list \<Rightarrow> process_event list \<Rightarrow> coordinator \<Rightarrow> (log_line list \<times> int) option" where
  "closePool logs [] c = None"
| "closePool logs (PoolClosed # pes) c =
     Some (logs @ [ConnectionsClosed] @ summary (co_stats c) @ [ProgramCompleted], 0)"
| "closePool logs (ReadError # pes) c = Some (logs, 1)"
| "closePool logs (ConnectionLost # pes) c = Some (logs, 1)"
| "closePool logs (Stream ev # pes) c = closePool logs pes (coordinate c ev)"

text \<open>\<^verbatim>\<open>await processCSV()\<close> in \<^verbatim>\<open>main\<close> (lines 305-308) and what follows. When it resolves,
  \<open>CSV file processing completed\<close> has been printed (line 293); when it rejects, the
  \<^verbatim>\<open>catch\<close> prints \<open>Error processing CSV\<close>. \<open>None\<close>: \<^verbatim>\<open>processCSV\<close> never settles. (The pool
  cannot close before \<^verbatim>\<open>pool.end()\<close> is called: \<open>PoolClosed\<close> is passed over here.)\<close>

fun awaitCSV :: "process_event list \<Rightarrow> coordinator \<Rightarrow> (log_line list \<times> int) option" where
  "awaitCSV [] c = None"
| "awaitCSV (ReadError # pes) c = Some ([], 1)"
| "awaitCSV (ConnectionLost # pes) c = Some ([], 1)"
| "awaitCSV (PoolClosed # pes) c = awaitCSV pes c"
| "awaitCSV (Stream ev # pes) c =
     (case settled (coordinate c ev) of
        None \<Rightarrow> awaitCSV pes (coordinate c ev)
      | Some Resolved \<Rightarrow> closePool [CsvCompleted] pes (coordinate c ev)
      | Some Rejected \<Rightarrow> closePool [ErrorProcessingCSV] pes (coordinate c ev))"

text \<open>\<^verbatim>\<open>main\<close> and the lines after it (103-328): the lines printed and the exit status.
  \<open>setup_ok\<close> says whether the promise of \<^verbatim>\<open>setup()\<close> is fulfilled, and the events are those
  that follow it. When \<^verbatim>\<open>setup()\<close> rejects, \<^verbatim>\<open>main\<close> rejects before anything else,
  \<^verbatim>\<open>.catch(console.error)\<close> prints the error, and the process exits with 0.\<close>

definition main :: "bool \<Rightarrow> store \<Rightarrow> process_event list \<Rightarrow> (log_line list \<times> int) option" where
  "main setup_ok db0 pes =
     (if \<not> setup_ok then Some ([MainError, ProgramCompleted], 0)
      else awaitCSV pes (start db0))"

text \<open>The unit of \<^verbatim>\<open>src/index.js\<close> (lines 73-87): the same \<^verbatim>\<open>try\<close>/\<^verbatim>\<open>catch\<close> without counters,
  around the fetcher, resolver and writer of that file.\<close>

definition index_unit :: "env \<Rightarrow> string \<Rightarrow> string \<Rightarrow> store \<Rightarrow> unit outcome \<times> store" where
  "index_unit e tk nm db =
     (case index_getDataWithRetry e 3 1000 of
        (None, evs) \<Rightarrow> (Returned (), db)
      | (Some p, evs) \<Rightarrow>
          (if truthy_payload p then
             (case index_getStockId db tk nm of
                (Threw, db1) \<Rightarrow> (Returned (), db1)
              | (Returned stockId, db1) \<Rightarrow>
                  (case index_saveZacksRanking db1 stockId (properties p) of
                     (Threw, db2) \<Rightarrow> (Returned (), db2)
                   | (Returned u, db2) \<Rightarrow> (Returned (), db2)))
           else (Returned (), db)))"

text \<open>The number of units that are still running.\<close>

definition running :: "coordinator \<Rightarrow> nat" where
  "running c = length (filter (\<lambda>h. u_state h = None) (pendingPromises c))"

text \<open>What holds of the coordinator at every moment: each started unit that is still
  running is one row counted as processed and in no other counter yet; no handle is
  rejected; and the run is resolved only when the stream has ended and no unit runs.\<close>

definition coordinator_inv :: "coordinator \<Rightarrow> bool" where
  "coordinator_inv c =
     (successfulSaves (co_stats c) + noRankingStocks (co_stats c) + running c
        = totalProcessed (co_stats c) + failedSaves (co_stats c)
      \<and> Some Threw \<notin> set (map u_state (pendingPromises c))
      \<and> (settled c = Some Resolved \<longrightarrow> ended c \<and> running c = 0))"

text \<open>The rows the stream yields before it ends or fails.\<close>

fun yielded :: "stream_event list \<Rightarrow> (string \<times> string) list" where
  "yielded [] = []"
| "yielded (Data e tk nm # evs) = (tk, nm) # yielded evs"
| "yielded (UnitDone i # evs) = yielded evs"
| "yielded (End # evs) = []"
| "yielded (Error # evs) = []"

text \<open>The row a handle belongs to.\<close>

definition handle_row :: "unit_handle \<Rightarrow> string \<times> string" where
  "handle_row h = (u_ticker h, u_name h)"

section \<open>Concrete inputs\<close>

text \<open>A provider that is down: every call throws.\<close>

definition env_down :: env where
  "env_down = \<lparr>api = (\<lambda>k. Throws), clock = 1700000000000, dateParse = (\<lambda>s. None),
     stringIsNaN = (\<lambda>s. True), resolve_fault = False, save_fault = NoFault\<rparr>"

text \<open>A provider whose first call throws and whose second call answers \<^verbatim>\<open>null\<close>.\<close>

definition env_null_second :: env where
  "env_null_second = \<lparr>api = (\<lambda>k. if k = 1 then Throws else Returns (PValue JNull)),
     clock = 1700000000000, dateParse = (\<lambda>s. None),
     stringIsNaN = (\<lambda>s. True), resolve_fault = False, save_fault = NoFault\<rparr>"

text \<open>A provider that answers every call with a string instead of an object.\<close>

definition env_text :: env where
  "env_text = \<lparr>api = (\<lambda>k. Returns (PValue (JStr ''Service Unavailable''))),
     clock = 1700000000000, dateParse = (\<lambda>s. None),
     stringIsNaN = (\<lambda>s. True), resolve_fault = False, save_fault = NoFault\<rparr>"

text \<open>A provider that answers with a complete ranking whose \<^verbatim>\<open>updatedAt\<close> is a string that
  \<^verbatim>\<open>new Date\<close> cannot read.\<close>

definition buy_bad_date :: data where
  "buy_bad_date = \<lparr>zacksRankText = JStr ''Buy'', zacksRank = JNum 2, updatedAt = JStr ''soon''\<rparr>"

definition env_bad_date :: env where
  "env_bad_date = \<lparr>api = (\<lambda>k. Returns (PRecord buy_bad_date)),
     clock = 1700000000000, dateParse = (\<lambda>s. None),
     stringIsNaN = (\<lambda>s. True), resolve_fault = False, save_fault = NoFault\<rparr>"

text \<open>Two rows of the input with the same ticker, not yet in the store: two calls of the
  resolver.\<close>

definition aapl_twice :: "call list" where
  "aapl_twice = [new_call ''AAPL'' ''Apple'', new_call ''AAPL'' ''Apple Inc'']"

text \<open>A store that holds the stock AAPL and no ranking; two rankings of the same instant
  with different rank values; a provider that answers with the first one, and no store
  fault.\<close>

definition db_aapl :: store where
  "db_aapl = \<lparr>stocks = [\<lparr>s_id = 1, s_ticker = ''AAPL'', s_name = ''Apple''\<rparr>], stocks_id_seq = 1,
     zacks_rankings = [], zacks_rankings_id_seq = 0\<rparr>"

definition buy_T :: data where
  "buy_T = \<lparr>zacksRankText = JStr ''Buy'', zacksRank = JNum 2, updatedAt = JDate (Some 1700000000000)\<rparr>"

definition hold_T :: data where
  "hold_T = \<lparr>zacksRankText = JStr ''Hold'', zacksRank = JNum 3, updatedAt = JDate (Some 1700000000000)\<rparr>"

definition env_buy :: env where
  "env_buy = \<lparr>api = (\<lambda>k. Returns (PRecord buy_T)), clock = 1700000000500, dateParse = (\<lambda>s. None),
     stringIsNaN = (\<lambda>s. True), resolve_fault = False, save_fault = NoFault\<rparr>"

text \<open>A row whose ranking is fetched and whose write to the store fails (the rollback
  succeeds), and a row whose resolver call fails.\<close>

definition env_save_fails :: env where
  "env_save_fails = \<lparr>api = (\<lambda>k. Returns (PRecord buy_T)), clock = 1700000000500, dateParse = (\<lambda>s. None),
     stringIsNaN = (\<lambda>s. True), resolve_fault = False, save_fault = QueryFails\<rparr>"

definition env_resolve_fails :: env where
  "env_resolve_fails = \<lparr>api = (\<lambda>k. Returns (PRecord buy_T)), clock = 1700000000500, dateParse = (\<lambda>s. None),
     stringIsNaN = (\<lambda>s. True), resolve_fault = True, save_fault = NoFault\<rparr>"

text \<open>A run of one row whose write fails, and a run of two rows, the first of which fails
  in the resolver: the stream yields the rows and ends, then the units finish.\<close>

definition run_save_fails :: "stream_event list" where
  "run_save_fails = [Data env_save_fails ''AAPL'' ''Apple'', End, UnitDone 0]"

definition run_one_fails :: "stream_event list" where
  "run_one_fails =
     [Data env_resolve_fails ''AAPL'' ''Apple'', Data env_buy ''MSFT'' ''Microsoft'', End,
      UnitDone 0, UnitDone 1]"

text \<open>Two rows whose units are in flight when the stream has ended, and the same run of the
  process with a connection of the pool breaking at that moment.\<close>

definition two_rows_in_flight :: "stream_event list" where
  "two_rows_in_flight =
     [Data env_buy ''AAPL'' ''Apple'', Data env_buy ''MSFT'' ''Microsoft'', End]"

definition run_connection_lost :: "process_event list" where
  "run_connection_lost = map Stream two_rows_in_flight @ [ConnectionLost]"

text \<open>A run whose parser stream emits an error while the unit of its one row is in flight;
  the unit then finds the pool closing (its resolver call is rejected) before the pool
  has closed.\<close>

definition run_stream_error :: "process_event list" where
  "run_stream_error =
     [Stream (Data env_resolve_fails ''AAPL'' ''Apple''), Stream Error, Stream (UnitDone 0), PoolClosed]"

section \<open>Properties of the fetcher\<close>

declare getDataWithRetry_from.simps [simp del]
declare index_getDataWithRetry_from.simps [simp del]

lemma attemptBody_Raised_iff: "attemptBody e a st = Raised \<longleftrightarrow> attempt_fails e a"
  by (auto simp: attemptBody_def attempt_fails_def split: api_result.splits)

lemma calls_append: "calls (xs @ ys) = calls xs @ calls ys"
  by (induction xs rule: calls.induct) auto

lemma waits_append: "waits (xs @ ys) = waits xs @ waits ys"
  by (induction xs rule: waits.induct) auto

lemma calls_retries: "calls (concat (map (\<lambda>j. [Call j, Wait d]) ks)) = ks"
  by (induction ks) auto

lemma waits_retries: "waits (concat (map (\<lambda>j. [Call j, Wait d]) ks)) = replicate (length ks) d"
  by (induction ks) auto

lemma upto_snoc_if: "[1..m - 1] @ (if 1 \<le> m then [m] else []) = [1..m]" for m :: int
  by (simp add: upto_rec2)

text \<open>When every attempt from \<open>attempt\<close> on ends in the \<^verbatim>\<open>catch\<close>, the loop runs to its bound:
  a call per attempt, a wait after each but the last, then the code after the loop.\<close>

lemma getDataWithRetry_from_exhausted:
  assumes "\<And>a. attempt \<le> a \<Longrightarrow> a \<le> maxRetries \<Longrightarrow> attemptBody e a st = Raised"
  shows "getDataWithRetry_from e attempt maxRetries delay st =
     (None, st\<lparr>failedRetrievals := failedRetrievals st + 1, noRankingStocks := noRankingStocks st + 1\<rparr>,
      concat (map (\<lambda>j. [Call j, Wait delay]) [attempt..maxRetries - 1]) @
        (if attempt \<le> maxRetries then [Call maxRetries] else []))"
  using assms
proof (induction e attempt maxRetries delay st rule: getDataWithRetry_from.induct)
  case (1 e attempt maxRetries delay st)
  show ?case
  proof (cases "attempt \<le> maxRetries")
    case False
    then show ?thesis by (simp add: getDataWithRetry_from.simps)
  next
    case True
    have r: "attemptBody e attempt st = Raised" using 1(2) True by simp
    have IH: "getDataWithRetry_from e (attempt + 1) maxRetries delay st =
     (None, st\<lparr>failedRetrievals := failedRetrievals st + 1, noRankingStocks := noRankingStocks st + 1\<rparr>,
      concat (map (\<lambda>j. [Call j, Wait delay]) [attempt + 1..maxRetries - 1]) @
        (if attempt + 1 \<le> maxRetries then [Call maxRetries] else []))"
      using 1(1)[OF True r] 1(2) by simp
    show ?thesis
    proof (cases "attempt < maxRetries")
      case True
      then have u: "[attempt..maxRetries - 1] = attempt # [attempt + 1..maxRetries - 1]"
        by (simp add: upto_rec1)
      show ?thesis using True r IH
        by (subst getDataWithRetry_from.simps) (simp add: u)
    next
      case False
      with True have eq: "attempt = maxRetries" by simp
      show ?thesis using r IH eq
        by (subst getDataWithRetry_from.simps) simp
    qed
  qed
qed

text \<open>When the attempts before \<open>k\<close> end in the \<^verbatim>\<open>catch\<close> and attempt \<open>k\<close> returns, the function
  returns what attempt \<open>k\<close> returns, and the trace stops at that call.\<close>

lemma getDataWithRetry_from_finishes:
  assumes "attempt \<le> k" and "k \<le> maxRetries"
    and "\<And>a. attempt \<le> a \<Longrightarrow> a < k \<Longrightarrow> attemptBody e a st = Raised"
    and "attemptBody e k st = Finished r st'"
  shows "getDataWithRetry_from e attempt maxRetries delay st =
     (r, st', concat (map (\<lambda>j. [Call j, Wait delay]) [attempt..k - 1]) @ [Call k])"
  using assms
proof (induction e attempt maxRetries delay st rule: getDataWithRetry_from.induct)
  case (1 e attempt maxRetries delay st)
  have le: "attempt \<le> maxRetries" using 1(2,3) by simp
  show ?case
  proof (cases "attempt = k")
    case True
    then show ?thesis using 1(5) le
      by (subst getDataWithRetry_from.simps) simp
  next
    case False
    then have lt: "attempt < k" using 1(2) by simp
    have r: "attemptBody e attempt st = Raised" using 1(4) lt by simp
    have IH: "getDataWithRetry_from e (attempt + 1) maxRetries delay st =
      (r, st', concat (map (\<lambda>j. [Call j, Wait delay]) [attempt + 1..k - 1]) @ [Call k])"
      using 1(1)[OF le r] lt 1(3,4,5) by simp
    have u: "[attempt..k - 1] = attempt # [attempt + 1..k - 1]"
      using lt by (simp add: upto_rec1)
    show ?thesis using r IH lt 1(3)
      by (subst getDataWithRetry_from.simps) (simp add: u le)
  qed
qed

lemma index_getDataWithRetry_from_exhausted:
  assumes "\<And>a. attempt \<le> a \<Longrightarrow> a \<le> maxRetries \<Longrightarrow> api e a = Throws"
  shows "index_getDataWithRetry_from e attempt maxRetries delay =
     (None,
      concat (map (\<lambda>j. [Call j, Wait delay]) [attempt..maxRetries - 1]) @
        (if attempt \<le> maxRetries then [Call maxRetries] else []))"
  using assms
proof (induction e attempt maxRetries delay rule: index_getDataWithRetry_from.induct)
  case (1 e attempt maxRetries delay)
  show ?case
  proof (cases "attempt \<le> maxRetries")
    case False
    then show ?thesis by (simp add: index_getDataWithRetry_from.simps)
  next
    case True
    have r: "api e attempt = Throws" using 1(2) True by simp
    have IH: "index_getDataWithRetry_from e (attempt + 1) maxRetries delay =
     (None,
      concat (map (\<lambda>j. [Call j, Wait delay]) [attempt + 1..maxRetries - 1]) @
        (if attempt + 1 \<le> maxRetries then [Call maxRetries] else []))"
      using 1(1)[OF True r] 1(2) by simp
    show ?thesis
    proof (cases "attempt < maxRetries")
      case True
      then have u: "[attempt..maxRetries - 1] = attempt # [attempt + 1..maxRetries - 1]"
        by (simp add: upto_rec1)
      show ?thesis using True r IH
        by (subst index_getDataWithRetry_from.simps) (simp add: u)
    next
      case False
      with True have eq: "attempt = maxRetries" by simp
      show ?thesis using r IH eq
        by (subst index_getDataWithRetry_from.simps) simp
    qed
  qed
qed

text \<open>
  \<^bold>\<open>Claim C4.\<close> When the provider call throws on every attempt, the fetcher makes exactly
  \<open>maxRetries\<close> attempts (numbered \<open>1\<close> to \<open>maxRetries\<close>), waits the same fixed \<open>delay\<close> after
  each failed attempt but the last (\<open>maxRetries - 1\<close> waits), and then gives the failed
  outcome: it returns \<^verbatim>\<open>null\<close> and counts one failed retrieval. The fetcher of
  \<^verbatim>\<open>src/index.js\<close> makes the same calls and waits and returns \<^verbatim>\<open>null\<close>. The defaults
  \<open>3\<close> and \<open>1000\<close> are those of \<open>getDataWithRetry_default\<close>, evaluated in the witness.
\<close>

theorem retry_bound:
  assumes "\<forall>a. 1 \<le> a \<and> a \<le> maxRetries \<longrightarrow> api e a = Throws"
  shows "getDataWithRetry e maxRetries delay st =
           (None,
            st\<lparr>failedRetrievals := failedRetrievals st + 1, noRankingStocks := noRankingStocks st + 1\<rparr>,
            concat (map (\<lambda>j. [Call j, Wait delay]) [1..maxRetries - 1]) @
              (if 1 \<le> maxRetries then [Call maxRetries] else []))
       \<and> calls (snd (snd (getDataWithRetry e maxRetries delay st))) = [1..maxRetries]
       \<and> waits (snd (snd (getDataWithRetry e maxRetries delay st))) = replicate (nat (maxRetries - 1)) delay
       \<and> index_getDataWithRetry e maxRetries delay =
           (None,
            concat (map (\<lambda>j. [Call j, Wait delay]) [1..maxRetries - 1]) @
              (if 1 \<le> maxRetries then [Call maxRetries] else []))"
proof -
  have raised: "\<And>a. 1 \<le> a \<Longrightarrow> a \<le> maxRetries \<Longrightarrow> attemptBody e a st = Raised"
    using assms by (simp add: attemptBody_Raised_iff attempt_fails_def)
  have run: "getDataWithRetry e maxRetries delay st =
           (None,
            st\<lparr>failedRetrievals := failedRetrievals st + 1, noRankingStocks := noRankingStocks st + 1\<rparr>,
            concat (map (\<lambda>j. [Call j, Wait delay]) [1..maxRetries - 1]) @
              (if 1 \<le> maxRetries then [Call maxRetries] else []))"
    unfolding getDataWithRetry_def by (rule getDataWithRetry_from_exhausted) (rule raised)
  have c: "calls (concat (map (\<lambda>j. [Call j, Wait delay]) [1..maxRetries - 1]) @
              (if 1 \<le> maxRetries then [Call maxRetries] else [])) = [1..maxRetries]"
    using upto_snoc_if[of maxRetries]
    by (cases "1 \<le> maxRetries") (simp_all add: calls_append calls_retries)
  have w: "waits (concat (map (\<lambda>j. [Call j, Wait delay]) [1..maxRetries - 1]) @
              (if 1 \<le> maxRetries then [Call maxRetries] else [])) = replicate (nat (maxRetries - 1)) delay"
    by (simp add: waits_append waits_retries)
  have idx: "index_getDataWithRetry e maxRetries delay =
           (None,
            concat (map (\<lambda>j. [Call j, Wait delay]) [1..maxRetries - 1]) @
              (if 1 \<le> maxRetries then [Call maxRetries] else []))"
    unfolding index_getDataWithRetry_def
    by (rule index_getDataWithRetry_from_exhausted) (use assms in simp)
  show ?thesis using run c w idx by simp
qed

theorem retry_bound_witness:
  "getDataWithRetry_default env_down stats0 =
     (None, stats0\<lparr>failedRetrievals := 1, noRankingStocks := 1\<rparr>,
      [Call 1, Wait 1000, Call 2, Wait 1000, Call 3])
   \<and> index_getDataWithRetry env_down 3 1000 = (None, [Call 1, Wait 1000, Call 2, Wait 1000, Call 3])"
proof -
  have h: "\<forall>a. 1 \<le> a \<and> a \<le> 3 \<longrightarrow> api env_down a = Throws"
    by (simp add: env_down_def)
  have u: "[1..2] = [1, 2::int]" by (simp add: upto_rec1)
  show ?thesis
    using retry_bound[OF h, of 1000 stats0]
    by (simp add: getDataWithRetry_default_def u stats0_def)
qed

lemma getDataWithRetry_finishes:
  assumes "1 \<le> k" and "k \<le> maxRetries"
    and "\<forall>a. 1 \<le> a \<and> a < k \<longrightarrow> attempt_fails e a"
    and "attemptBody e k st = Finished r st'"
  shows "getDataWithRetry e maxRetries delay st =
     (r, st', concat (map (\<lambda>j. [Call j, Wait delay]) [1..k - 1]) @ [Call k])"
  unfolding getDataWithRetry_def
  using assms by (intro getDataWithRetry_from_finishes) (simp_all add: attemptBody_Raised_iff)

text \<open>
  \<^bold>\<open>Claim C5.\<close> When the provider answers \<^verbatim>\<open>null\<close> at attempt \<open>k\<close> (the attempts before it
  having failed, so that attempt \<open>k\<close> is made at all), the fetcher returns at once: the
  outcome is no-ranking (\<^verbatim>\<open>null\<close> returned, \<open>noRankingStocks\<close> incremented, \<open>failedRetrievals\<close>
  untouched), the trace ends with call \<open>k\<close>, so no attempt and no wait follows the
  observation. The same holds of the empty object \<^verbatim>\<open>{}\<close>. For \<open>k = 1\<close> the trace is the
  single call.
\<close>

theorem null_response_is_terminal:
  assumes "1 \<le> k" and "k \<le> maxRetries"
    and "\<forall>a. 1 \<le> a \<and> a < k \<longrightarrow> attempt_fails e a"
    and "api e k = Returns p"
    and "p = PValue JNull \<or> p = PRecord \<lparr>zacksRankText = JUndefined, zacksRank = JUndefined, updatedAt = JUndefined\<rparr>"
  shows "getDataWithRetry e maxRetries delay st =
           (None, st\<lparr>noRankingStocks := noRankingStocks st + 1\<rparr>,
            concat (map (\<lambda>j. [Call j, Wait delay]) [1..k - 1]) @ [Call k])
       \<and> calls (snd (snd (getDataWithRetry e maxRetries delay st))) = [1..k]
       \<and> waits (snd (snd (getDataWithRetry e maxRetries delay st))) = replicate (nat (k - 1)) delay"
proof -
  have body: "attemptBody e k st = Finished None (st\<lparr>noRankingStocks := noRankingStocks st + 1\<rparr>)"
    using assms(4,5) by (auto simp: attemptBody_def)
  have run: "getDataWithRetry e maxRetries delay st =
           (None, st\<lparr>noRankingStocks := noRankingStocks st + 1\<rparr>,
            concat (map (\<lambda>j. [Call j, Wait delay]) [1..k - 1]) @ [Call k])"
    by (rule getDataWithRetry_finishes[OF assms(1,2,3) body])
  have c: "calls (concat (map (\<lambda>j. [Call j, Wait delay]) [1..k - 1]) @ [Call k]) = [1..k]"
    using upto_snoc_if[of k] assms(1) by (simp add: calls_append calls_retries)
  have w: "waits (concat (map (\<lambda>j. [Call j, Wait delay]) [1..k - 1]) @ [Call k]) = replicate (nat (k - 1)) delay"
    by (simp add: waits_append waits_retries)
  show ?thesis using run c w by simp
qed

theorem null_response_is_terminal_witness:
  "getDataWithRetry_default env_null_second stats0 =
     (None, stats0\<lparr>noRankingStocks := 1\<rparr>, [Call 1, Wait 1000, Call 2])"
proof -
  have h: "\<forall>a. 1 \<le> a \<and> a < 2 \<longrightarrow> attempt_fails env_null_second a"
    by (simp add: env_null_second_def attempt_fails_def)
  have a: "api env_null_second 2 = Returns (PValue JNull)"
    by (simp add: env_null_second_def)
  have u: "[1..1] = [1::int]" by (simp add: upto_rec1)
  show ?thesis
    using null_response_is_terminal[of 2 3 env_null_second "PValue JNull" 1000 stats0, OF _ _ h a]
    by (simp add: getDataWithRetry_default_def u stats0_def)
qed

text \<open>
  \<^bold>\<open>Claim C6.\<close> A response that is an object with \<^verbatim>\<open>zacksRank\<close> and \<^verbatim>\<open>zacksRankText\<close> present
  is accepted whatever its \<^verbatim>\<open>updatedAt\<close> is: the fetcher returns the object with
  \<^verbatim>\<open>updatedAt\<close> replaced by a valid Date and touches no counter. The Date is the parsed
  time when \<^verbatim>\<open>updatedAt\<close> is a string \<^verbatim>\<open>new Date\<close> can read or a valid Date, the current
  time when it is a string \<^verbatim>\<open>new Date\<close> cannot read or an invalid Date, and the current
  time when it is absent (undefined, null) or of any other type. The guard of the writer
  (lines 145-150) then decides on \<^verbatim>\<open>zacksRankText\<close> and \<^verbatim>\<open>zacksRank\<close> alone.
\<close>

theorem observedAt_normalized:
  assumes "1 \<le> k" and "k \<le> maxRetries"
    and "\<forall>a. 1 \<le> a \<and> a < k \<longrightarrow> attempt_fails e a"
    and "api e k = Returns (PRecord d)"
    and "\<not> loose_null (zacksRank d)" and "\<not> loose_null (zacksRankText d)"
  shows "\<exists>t. getDataWithRetry e maxRetries delay st =
             (Some (d\<lparr>updatedAt := JDate (Some t)\<rparr>), st,
              concat (map (\<lambda>j. [Call j, Wait delay]) [1..k - 1]) @ [Call k])
           \<and> t = (case updatedAt d of
                    JStr s \<Rightarrow> (case dateParse e s of Some parsed \<Rightarrow> parsed | None \<Rightarrow> clock e)
                  | JDate x \<Rightarrow> (case x of Some parsed \<Rightarrow> parsed | None \<Rightarrow> clock e)
                  | JUndefined \<Rightarrow> clock e
                  | JNull \<Rightarrow> clock e
                  | JBool b \<Rightarrow> clock e
                  | JNum n \<Rightarrow> clock e
                  | JNaN \<Rightarrow> clock e)
           \<and> invalidRanking e (d\<lparr>updatedAt := JDate (Some t)\<rparr>)
               = (\<not> truthy (zacksRankText d) \<or> js_isNaN e (zacksRank d))"
proof -
  have body: "attemptBody e k st =
      Finished (Some (d\<lparr>updatedAt := normalizeUpdatedAt e (updatedAt d)\<rparr>)) st"
    using assms(4,5,6) by (simp add: attemptBody_def)
  have run: "getDataWithRetry e maxRetries delay st =
      (Some (d\<lparr>updatedAt := normalizeUpdatedAt e (updatedAt d)\<rparr>), st,
       concat (map (\<lambda>j. [Call j, Wait delay]) [1..k - 1]) @ [Call k])"
    by (rule getDataWithRetry_finishes[OF assms(1,2,3) body])
  have n: "normalizeUpdatedAt e (updatedAt d) =
      JDate (Some (case updatedAt d of
                    JStr s \<Rightarrow> (case dateParse e s of Some parsed \<Rightarrow> parsed | None \<Rightarrow> clock e)
                  | JDate x \<Rightarrow> (case x of Some parsed \<Rightarrow> parsed | None \<Rightarrow> clock e)
                  | JUndefined \<Rightarrow> clock e
                  | JNull \<Rightarrow> clock e
                  | JBool b \<Rightarrow> clock e
                  | JNum n \<Rightarrow> clock e
                  | JNaN \<Rightarrow> clock e))"
    by (cases "updatedAt d") (auto simp: normalizeUpdatedAt_def split: option.splits)
  have g: "\<And>t. invalidRanking e (d\<lparr>updatedAt := JDate (Some t)\<rparr>)
               = (\<not> truthy (zacksRankText d) \<or> js_isNaN e (zacksRank d))"
    using assms(5) by (simp add: invalidRanking_def)
  show ?thesis using run n g by simp
qed

theorem observedAt_normalized_witness:
  "getDataWithRetry_default env_bad_date stats0 =
     (Some \<lparr>zacksRankText = JStr ''Buy'', zacksRank = JNum 2, updatedAt = JDate (Some 1700000000000)\<rparr>,
      stats0, [Call 1])"
proof -
  have a: "api env_bad_date 1 = Returns (PRecord buy_bad_date)"
    by (simp add: env_bad_date_def)
  have r: "\<not> loose_null (zacksRank buy_bad_date)" "\<not> loose_null (zacksRankText buy_bad_date)"
    by (simp_all add: buy_bad_date_def)
  have h: "\<forall>a. 1 \<le> a \<and> a < 1 \<longrightarrow> attempt_fails env_bad_date a"
    by auto
  have c: "clock env_bad_date = 1700000000000" "dateParse env_bad_date ''soon'' = None"
    by (simp_all add: env_bad_date_def)
  show ?thesis
    using observedAt_normalized[of 1 3 env_bad_date buy_bad_date 1000 stats0, OF _ _ h a r] c
    by (simp add: getDataWithRetry_default_def buy_bad_date_def)
qed

text \<open>
  \<^bold>\<open>Claim C7\<close> as stated fails: a response that is not an object is not settled at its
  first observation. With the defaults and a provider that answers a string on every
  call, the fetcher calls three times, waits twice, and counts a failed retrieval.
\<close>

theorem malformed_payload_counterexample:
  "getDataWithRetry_default env_text stats0 =
     (None, stats0\<lparr>failedRetrievals := 1, noRankingStocks := 1\<rparr>,
      [Call 1, Wait 1000, Call 2, Wait 1000, Call 3])
   \<and> getDataWithRetry_default env_text stats0 \<noteq> (None, stats0\<lparr>noRankingStocks := 1\<rparr>, [Call 1])"
proof -
  have "\<And>a. attemptBody env_text a stats0 = Raised"
    by (simp add: attemptBody_def env_text_def)
  then have "getDataWithRetry_from env_text 1 3 1000 stats0 =
     (None, stats0\<lparr>failedRetrievals := failedRetrievals stats0 + 1, noRankingStocks := noRankingStocks stats0 + 1\<rparr>,
      concat (map (\<lambda>j. [Call j, Wait 1000]) [1..3 - 1]) @ (if (1::int) \<le> 3 then [Call 3] else []))"
    by (intro getDataWithRetry_from_exhausted)
  moreover have "[1..2] = [1, 2::int]" by (simp add: upto_rec1)
  ultimately show ?thesis
    by (simp add: getDataWithRetry_default_def getDataWithRetry_def stats0_def)
qed

text \<open>
  \<^bold>\<open>Claim C7, amended.\<close> A response that is not an object makes line 212 throw inside the
  \<^verbatim>\<open>try\<close> of the retry loop, so the attempt fails like a provider error: it is followed by
  the backoff wait (unless it was the last attempt) and by the next attempt. When every
  attempt is answered that way, the fetcher makes \<open>maxRetries\<close> calls and
  \<open>maxRetries - 1\<close> waits, returns \<^verbatim>\<open>null\<close>, and counts the row once as a failed retrieval
  and once as no-ranking.
\<close>

theorem malformed_payload_is_retried:
  assumes "\<forall>a. 1 \<le> a \<and> a \<le> maxRetries \<longrightarrow> (\<exists>p. api e a = Returns p \<and> \<not> typeof_object p)"
  shows "getDataWithRetry e maxRetries delay st =
           (None,
            st\<lparr>failedRetrievals := failedRetrievals st + 1, noRankingStocks := noRankingStocks st + 1\<rparr>,
            concat (map (\<lambda>j. [Call j, Wait delay]) [1..maxRetries - 1]) @
              (if 1 \<le> maxRetries then [Call maxRetries] else []))
       \<and> calls (snd (snd (getDataWithRetry e maxRetries delay st))) = [1..maxRetries]
       \<and> waits (snd (snd (getDataWithRetry e maxRetries delay st))) = replicate (nat (maxRetries - 1)) delay"
proof -
  have raised: "\<And>a. 1 \<le> a \<Longrightarrow> a \<le> maxRetries \<Longrightarrow> attemptBody e a st = Raised"
    using assms by (auto simp: attemptBody_Raised_iff attempt_fails_def)
  have run: "getDataWithRetry e maxRetries delay st =
           (None,
            st\<lparr>failedRetrievals := failedRetrievals st + 1, noRankingStocks := noRankingStocks st + 1\<rparr>,
            concat (map (\<lambda>j. [Call j, Wait delay]) [1..maxRetries - 1]) @
              (if 1 \<le> maxRetries then [Call maxRetries] else []))"
    unfolding getDataWithRetry_def by (rule getDataWithRetry_from_exhausted) (rule raised)
  have c: "calls (concat (map (\<lambda>j. [Call j, Wait delay]) [1..maxRetries - 1]) @
              (if 1 \<le> maxRetries then [Call maxRetries] else [])) = [1..maxRetries]"
    using upto_snoc_if[of maxRetries]
    by (cases "1 \<le> maxRetries") (simp_all add: calls_append calls_retries)
  have w: "waits (concat (map (\<lambda>j. [Call j, Wait delay]) [1..maxRetries - 1]) @
              (if 1 \<le> maxRetries then [Call maxRetries] else [])) = replicate (nat (maxRetries - 1)) delay"
    by (simp add: waits_append waits_retries)
  show ?thesis using run c w by simp
qed

theorem malformed_payload_is_retried_witness:
  "getDataWithRetry env_text 2 500 stats0 =
     (None, stats0\<lparr>failedRetrievals := 1, noRankingStocks := 1\<rparr>, [Call 1, Wait 500, Call 2])"
proof -
  have h: "\<forall>a. 1 \<le> a \<and> a \<le> 2 \<longrightarrow> (\<exists>p. api env_text a = Returns p \<and> \<not> typeof_object p)"
    by (simp add: env_text_def)
  have u: "[1..1] = [1::int]" by (simp add: upto_rec1)
  show ?thesis
    using malformed_payload_is_retried[OF h, of 500 stats0]
    by (simp add: u stats0_def)
qed

section \<open>Properties of the ranking writer\<close>

lemma valid_params:
  assumes "\<not> invalidRanking e d"
  shows "sql_param (updatedAt d) = updatedAt d" "updatedAt d \<noteq> JNull"
    "sql_param (zacksRank d) = zacksRank d" "sql_param (zacksRankText d) = zacksRankText d"
  using assms
  by (cases "updatedAt d"; cases "zacksRank d"; cases "zacksRankText d"; simp add: invalidRanking_def)+

lemma filter_key_distinct:
  assumes "distinct (map ranking_key (filter (\<lambda>r. rk_updatedAt r \<noteq> JNull) rs))" and "u \<noteq> JNull"
  shows "length (filter (\<lambda>r. rk_stock_id r = sid \<and> rk_updatedAt r = u) rs) \<le> 1"
  using assms
proof (induction rs)
  case Nil
  then show ?case by simp
next
  case (Cons r rs)
  show ?case
  proof (cases "rk_stock_id r = sid \<and> rk_updatedAt r = u")
    case True
    then have "ranking_key r \<notin> set (map ranking_key (filter (\<lambda>r. rk_updatedAt r \<noteq> JNull) rs))"
      using Cons.prems by auto
    then have notin: "ranking_key r \<notin> ranking_key ` {x \<in> set rs. rk_updatedAt x \<noteq> JNull}"
      by simp
    have "\<And>x. x \<in> set rs \<Longrightarrow> rk_updatedAt x \<noteq> JNull \<Longrightarrow> ranking_key x \<noteq> ranking_key r"
    proof
      fix x assume "x \<in> set rs" "rk_updatedAt x \<noteq> JNull" "ranking_key x = ranking_key r"
      then have "ranking_key r \<in> ranking_key ` {x \<in> set rs. rk_updatedAt x \<noteq> JNull}"
        by (metis (mono_tags, lifting) imageI mem_Collect_eq)
      with notin show False by contradiction
    qed
    then have "filter (\<lambda>r. rk_stock_id r = sid \<and> rk_updatedAt r = u) rs = []"
      using True Cons.prems(2) by (fastforce simp: filter_empty_conv ranking_key_def)
    then show ?thesis using True by simp
  next
    case False
    then show ?thesis using Cons by (auto split: if_splits)
  qed
qed

lemma saveZacksRanking_valid:
  assumes "\<not> invalidRanking e d" and "save_fault e = NoFault"
    and "\<exists>s \<in> set (stocks db). s_id s = stockId"
  shows "saveZacksRanking e db st stockId d =
     (if rankings_at db stockId (updatedAt d) \<noteq> [] then
        (Returned (),
         db\<lparr>zacks_rankings_id_seq := zacks_rankings_id_seq db + 1,
            zacks_rankings :=
              map (\<lambda>r. if rk_stock_id r = stockId \<and> rk_updatedAt r = updatedAt d
                        then r\<lparr>rk_zacksRankText := zacksRankText d, rk_zacksRank := zacksRank d\<rparr>
                        else r)
                  (zacks_rankings db)\<rparr>,
         st\<lparr>totalUpdates := totalUpdates st + 1, successfulSaves := successfulSaves st + 1\<rparr>)
      else
        (Returned (),
         db\<lparr>zacks_rankings_id_seq := zacks_rankings_id_seq db + 1,
            zacks_rankings := zacks_rankings db @
              [\<lparr>rk_id = zacks_rankings_id_seq db + 1, rk_stock_id = stockId,
                rk_zacksRankText = zacksRankText d, rk_zacksRank = zacksRank d,
                rk_updatedAt = updatedAt d\<rparr>]\<rparr>,
         st\<lparr>totalInserts := totalInserts st + 1, successfulSaves := successfulSaves st + 1\<rparr>))"
proof -
  note vp = valid_params[OF assms(1)]
  have conf: "ranking_conflicts stockId (updatedAt d) = (\<lambda>r. rk_stock_id r = stockId \<and> rk_updatedAt r = updatedAt d)"
    by (auto simp: ranking_conflicts_def vp fun_eq_iff)
  have ex: "(\<exists>r \<in> set (zacks_rankings db). rk_stock_id r = stockId \<and> rk_updatedAt r = updatedAt d)
      \<longleftrightarrow> rankings_at db stockId (updatedAt d) \<noteq> []"
    by (auto simp: rankings_at_def filter_empty_conv)
  show ?thesis
    using assms(1,2,3) ex
    by (simp add: saveZacksRanking_def upsert_ranking_def conf vp new_ranking_def Let_def)
qed


lemma filter_map_same:
  assumes "\<And>x. P (f x) = P x"
  shows "filter P (map f xs) = map f (filter P xs)"
  using assms by (induction xs) auto

lemma saveZacksRanking_rows:
  assumes "\<not> invalidRanking e d" and "save_fault e = NoFault"
    and "\<exists>s \<in> set (stocks db). s_id s = stockId"
    and "unique_rankings db"
    and "saveZacksRanking e db st stockId d = (res, db', st')"
  shows "\<exists>r. rankings_at db' stockId (updatedAt d) = [r]
            \<and> rk_zacksRank r = zacksRank d \<and> rk_zacksRankText r = zacksRankText d"
    and "unique_rankings db'"
    and "stocks db' = stocks db"
proof -
  note vp = valid_params[OF assms(1)]
  note sv = saveZacksRanking_valid[OF assms(1,2,3), of st]
  let ?P = "\<lambda>r. rk_stock_id r = stockId \<and> rk_updatedAt r = updatedAt d"
  let ?f = "\<lambda>r. if rk_stock_id r = stockId \<and> rk_updatedAt r = updatedAt d
                        then r\<lparr>rk_zacksRankText := zacksRankText d, rk_zacksRank := zacksRank d\<rparr>
                        else r"
  have le1: "length (filter ?P (zacks_rankings db)) \<le> 1"
    using assms(4) vp(2) unfolding unique_rankings_def by (rule filter_key_distinct)
  have Pf: "\<And>x. ?P (?f x) = ?P x" by simp
  have nn: "\<And>x. (rk_updatedAt (?f x) \<noteq> JNull) = (rk_updatedAt x \<noteq> JNull)" by simp
  have keyf: "\<And>x. ranking_key (?f x) = ranking_key x" by (simp add: ranking_key_def)
  show "stocks db' = stocks db" using sv assms(5) by (auto split: if_splits)
  show "\<exists>r. rankings_at db' stockId (updatedAt d) = [r]
            \<and> rk_zacksRank r = zacksRank d \<and> rk_zacksRankText r = zacksRankText d"
  proof (cases "rankings_at db stockId (updatedAt d) = []")
    case True
    then show ?thesis using sv assms(5) by (auto simp: rankings_at_def)
  next
    case False
    then obtain r0 where r0: "filter ?P (zacks_rankings db) = [r0]"
      using le1 by (cases "filter ?P (zacks_rankings db)") (auto simp: rankings_at_def)
    then have "r0 \<in> set (filter ?P (zacks_rankings db))" by simp
    then have P0: "?P r0" by simp
    have db': "zacks_rankings db' = map ?f (zacks_rankings db)"
      using sv assms(5) False by auto
    have "filter ?P (map ?f (zacks_rankings db)) = map ?f (filter ?P (zacks_rankings db))"
      by (rule filter_map_same) simp
    then have "rankings_at db' stockId (updatedAt d) = [?f r0]"
      using r0 db' by (simp add: rankings_at_def)
    then show ?thesis using P0 by simp
  qed
  show "unique_rankings db'"
  proof (cases "rankings_at db stockId (updatedAt d) = []")
    case True
    then have db': "zacks_rankings db' = zacks_rankings db @
              [\<lparr>rk_id = zacks_rankings_id_seq db + 1, rk_stock_id = stockId,
                rk_zacksRankText = zacksRankText d, rk_zacksRank = zacksRank d,
                rk_updatedAt = updatedAt d\<rparr>]"
      using sv assms(5) by auto
    have nokey: "\<And>x. x \<in> set (zacks_rankings db) \<Longrightarrow> ranking_key x \<noteq> (stockId, updatedAt d)"
      using True by (auto simp: rankings_at_def filter_empty_conv ranking_key_def)
    have fresh: "(stockId, updatedAt d) \<notin> set (map ranking_key (filter (\<lambda>r. rk_updatedAt r \<noteq> JNull) (zacks_rankings db)))"
    proof
      assume "(stockId, updatedAt d) \<in> set (map ranking_key (filter (\<lambda>r. rk_updatedAt r \<noteq> JNull) (zacks_rankings db)))"
      then obtain x where "x \<in> set (zacks_rankings db)" "ranking_key x = (stockId, updatedAt d)"
        by auto
      with nokey show False by blast
    qed
    have keys: "map ranking_key (filter (\<lambda>r. rk_updatedAt r \<noteq> JNull) (zacks_rankings db'))
        = map ranking_key (filter (\<lambda>r. rk_updatedAt r \<noteq> JNull) (zacks_rankings db)) @ [(stockId, updatedAt d)]"
      unfolding db' using vp(2) by (simp add: ranking_key_def)
    show ?thesis
      using assms(4) fresh unfolding unique_rankings_def keys by simp
  next
    case False
    then have db': "zacks_rankings db' = map ?f (zacks_rankings db)"
      using sv assms(5) by auto
    have fm: "filter (\<lambda>r. rk_updatedAt r \<noteq> JNull) (map ?f (zacks_rankings db))
        = map ?f (filter (\<lambda>r. rk_updatedAt r \<noteq> JNull) (zacks_rankings db))"
      by (rule filter_map_same) simp
    have comp: "ranking_key \<circ> ?f = ranking_key"
      by (rule ext) (simp add: ranking_key_def)
    have keys: "map ranking_key (filter (\<lambda>r. rk_updatedAt r \<noteq> JNull) (zacks_rankings db'))
        = map ranking_key (filter (\<lambda>r. rk_updatedAt r \<noteq> JNull) (zacks_rankings db))"
      unfolding db' fm map_map comp ..
    show ?thesis
      unfolding unique_rankings_def keys by (rule assms(4)[unfolded unique_rankings_def])
  qed
qed

section \<open>Properties of the stock identity resolver\<close>

lemma map_ticker_rename:
  "map s_ticker (map (\<lambda>x. if s_ticker x = tk then x\<lparr>s_name := nm\<rparr> else x) xs) = map s_ticker xs"
  by (induction xs) auto

lemma keys_rename:
  "(\<lambda>s. (s_id s, s_ticker s)) ` set (map (\<lambda>x. if s_ticker x = tk then x\<lparr>s_name := nm\<rparr> else x) xs)
     = (\<lambda>s. (s_id s, s_ticker s)) ` set xs"
  by (induction xs) auto

lemma upsert_stock_cases:
  assumes "upsert_stock db tk nm = (i, db')"
  shows "(filter (\<lambda>s. s_ticker s = tk) (stocks db) = []
            \<and> i = stocks_id_seq db + 1
            \<and> stocks db' = stocks db @ [\<lparr>s_id = stocks_id_seq db + 1, s_ticker = tk, s_name = nm\<rparr>])
       \<or> (\<exists>s others. filter (\<lambda>s. s_ticker s = tk) (stocks db) = s # others
            \<and> i = s_id s
            \<and> stocks db' = map (\<lambda>x. if s_ticker x = tk then x\<lparr>s_name := nm\<rparr> else x) (stocks db))"
  using assms
  by (cases "filter (\<lambda>s. s_ticker s = tk) (stocks db)") (auto simp: upsert_stock_def Let_def)

lemma upsert_stock_unique:
  assumes "unique_tickers db" and "upsert_stock db tk nm = (i, db')"
  shows "unique_tickers db'"
  using upsert_stock_cases[OF assms(2)]
proof (elim disjE conjE exE)
  assume e: "filter (\<lambda>s. s_ticker s = tk) (stocks db) = []"
    and d: "stocks db' = stocks db @ [\<lparr>s_id = stocks_id_seq db + 1, s_ticker = tk, s_name = nm\<rparr>]"
  from e have "tk \<notin> set (map s_ticker (stocks db))"
    by (auto simp: filter_empty_conv)
  then show ?thesis
    using assms(1) unfolding unique_tickers_def d by simp
next
  fix s others
  assume d: "stocks db' = map (\<lambda>x. if s_ticker x = tk then x\<lparr>s_name := nm\<rparr> else x) (stocks db)"
  show ?thesis
    unfolding unique_tickers_def d map_ticker_rename
    by (rule assms(1)[unfolded unique_tickers_def])
qed

lemma upsert_stock_keys:
  assumes "upsert_stock db tk nm = (i, db')"
  shows "stock_keys db \<subseteq> stock_keys db'" and "(i, tk) \<in> stock_keys db'"
proof -
  have "stock_keys db \<subseteq> stock_keys db' \<and> (i, tk) \<in> stock_keys db'"
    using upsert_stock_cases[OF assms]
  proof (elim disjE conjE exE)
    assume "i = stocks_id_seq db + 1"
      and d: "stocks db' = stocks db @ [\<lparr>s_id = stocks_id_seq db + 1, s_ticker = tk, s_name = nm\<rparr>]"
    then show ?thesis unfolding stock_keys_def d by auto
  next
    fix s others
    assume f: "filter (\<lambda>s. s_ticker s = tk) (stocks db) = s # others" and i: "i = s_id s"
      and d: "stocks db' = map (\<lambda>x. if s_ticker x = tk then x\<lparr>s_name := nm\<rparr> else x) (stocks db)"
    have same: "stock_keys db' = stock_keys db"
      unfolding stock_keys_def d keys_rename ..
    from f have "s \<in> set (filter (\<lambda>s. s_ticker s = tk) (stocks db))" by simp
    then have "s \<in> set (stocks db)" "s_ticker s = tk" by auto
    then have "(s_id s, tk) \<in> stock_keys db" unfolding stock_keys_def by force
    then show ?thesis using same i by simp
  qed
  then show "stock_keys db \<subseteq> stock_keys db'" and "(i, tk) \<in> stock_keys db'" by simp_all
qed

lemma select_in_keys:
  assumes "select_stock_ids db tk = i # rows"
  shows "(i, tk) \<in> stock_keys db"
proof -
  have "i \<in> set (select_stock_ids db tk)" using assms by simp
  then show ?thesis by (auto simp: select_stock_ids_def stock_keys_def)
qed

lemma resolved_ok_mono:
  assumes "resolved_ok db c" and "stock_keys db \<subseteq> stock_keys db'"
  shows "resolved_ok db' c"
  using assms by (auto simp: resolved_ok_def split: position.splits outcome.splits)

lemma resolve_step_inv:
  assumes "unique_tickers db" and "resolved_ok db c" and "resolve_step c db = (c', db')"
  shows "unique_tickers db'" and "stock_keys db \<subseteq> stock_keys db'" and "resolved_ok db' c'"
    and "c_ticker c' = c_ticker c"
proof -
  show "unique_tickers db'"
    using assms upsert_stock_unique
    by (auto simp: resolve_step_def split: position.splits list.splits prod.splits)
  show k: "stock_keys db \<subseteq> stock_keys db'"
    using assms upsert_stock_keys(1)
    by (auto simp: resolve_step_def split: position.splits list.splits prod.splits)
  show "c_ticker c' = c_ticker c"
    using assms
    by (auto simp: resolve_step_def split: position.splits list.splits prod.splits)
  show "resolved_ok db' c'"
  proof (cases "c_at c")
    case AtSelect
    then show ?thesis using assms select_in_keys[of db "c_ticker c"]
      by (auto simp: resolve_step_def resolved_ok_def split: list.splits)
  next
    case AtInsert
    then show ?thesis using assms upsert_stock_keys(2)[of db "c_ticker c" "c_name c"]
      by (auto simp: resolve_step_def resolved_ok_def split: prod.splits)
  next
    case (Settled r)
    then show ?thesis using assms by (auto simp: resolve_step_def)
  qed
qed

lemma run_schedule_inv:
  assumes "unique_tickers db" and "\<forall>c \<in> set cs. resolved_ok db c"
    and "run_schedule resolve_step sched (cs, db) = (cs', db')"
  shows "unique_tickers db' \<and> (\<forall>c \<in> set cs'. resolved_ok db' c)
         \<and> map c_ticker cs' = map c_ticker cs \<and> stock_keys db \<subseteq> stock_keys db'"
  using assms
proof (induction sched arbitrary: cs db)
  case Nil
  then show ?case by simp
next
  case (Cons i sched)
  show ?case
  proof (cases "i < length cs")
    case False
    then show ?thesis using Cons by simp
  next
    case True
    obtain c1 db1 where st: "resolve_step (cs ! i) db = (c1, db1)" by (cases "resolve_step (cs ! i) db")
    have ci: "cs ! i \<in> set cs" using True by simp
    note inv = resolve_step_inv[OF Cons.prems(1) Cons.prems(2)[rule_format, OF ci] st]
    have all1: "\<forall>c \<in> set (cs[i := c1]). resolved_ok db1 c"
    proof
      fix c assume "c \<in> set (cs[i := c1])"
      then have "c = c1 \<or> c \<in> set cs" using set_update_subset_insert by fastforce
      then show "resolved_ok db1 c"
        using inv(3) Cons.prems(2) resolved_ok_mono[OF _ inv(2)] by auto
    qed
    have run: "run_schedule resolve_step sched (cs[i := c1], db1) = (cs', db')"
      using Cons.prems(3) True st by simp
    have "map c_ticker (cs[i := c1]) = (map c_ticker cs)[i := map c_ticker cs ! i]"
      using inv(4) True by (simp add: map_update)
    then have tk: "map c_ticker (cs[i := c1]) = map c_ticker cs"
      by (simp only: list_update_id)
    from Cons.IH[OF inv(1) all1 run] tk inv(2) show ?thesis by auto
  qed
qed


lemma rows_of_unique:
  assumes "distinct (map s_ticker xs)"
  shows "length (filter (\<lambda>s. s_ticker s = tk) xs) \<le> 1"
  using assms
proof (induction xs)
  case Nil
  then show ?case by simp
next
  case (Cons x xs)
  show ?case
  proof (cases "s_ticker x = tk")
    case True
    then have "tk \<notin> set (map s_ticker xs)" using Cons.prems by auto
    then have "filter (\<lambda>s. s_ticker s = tk) xs = []"
      by (auto simp: filter_empty_conv)
    then show ?thesis using True by simp
  next
    case False
    then show ?thesis using Cons by simp
  qed
qed

lemma resolve_step_progress:
  assumes "resolve_step c db = (c', db')"
  shows "steps_left (c_at c') \<le> steps_left (c_at c) - 1"
  using assms
  by (auto simp: resolve_step_def split: position.splits list.splits prod.splits)

lemma run_schedule_progress:
  assumes "run_schedule resolve_step sched (cs, db) = (cs', db')"
  shows "length cs' = length cs
       \<and> (\<forall>i < length cs. steps_left (c_at (cs' ! i)) \<le> steps_left (c_at (cs ! i)) - count_list sched i)"
  using assms
proof (induction sched arbitrary: cs db)
  case Nil
  then show ?case by simp
next
  case (Cons j sched)
  show ?case
  proof (cases "j < length cs")
    case False
    then have "run_schedule resolve_step sched (cs, db) = (cs', db')" using Cons.prems by simp
    from Cons.IH[OF this] False show ?thesis by auto
  next
    case True
    obtain c1 db1 where st: "resolve_step (cs ! j) db = (c1, db1)" by (cases "resolve_step (cs ! j) db")
    have run: "run_schedule resolve_step sched (cs[j := c1], db1) = (cs', db')"
      using Cons.prems True st by simp
    note IH = Cons.IH[OF run]
    note pr = resolve_step_progress[OF st]
    have len: "length cs' = length cs" using IH by simp
    have "\<forall>i < length cs. steps_left (c_at (cs' ! i)) \<le> steps_left (c_at (cs ! i)) - count_list (j # sched) i"
    proof (intro allI impI)
      fix i assume i: "i < length cs"
      then have a: "steps_left (c_at (cs' ! i)) \<le> steps_left (c_at (cs[j := c1] ! i)) - count_list sched i"
        using IH by simp
      show "steps_left (c_at (cs' ! i)) \<le> steps_left (c_at (cs ! i)) - count_list (j # sched) i"
      proof (cases "i = j")
        case True
        then have "cs[j := c1] ! i = c1" using i by simp
        then show ?thesis using a pr True by simp
      next
        case False
        then have "cs[j := c1] ! i = cs ! i" by simp
        then show ?thesis using a False by simp
      qed
    qed
    then show ?thesis using len by simp
  qed
qed

section \<open>Claims about the resolver and the writer\<close>

text \<open>
  Race safety of \<^verbatim>\<open>getOrCreateStockId\<close> (part_000, lines 116-141). Any number of calls for
  the same ticker, their statements interleaved by any schedule, leave at most one row of
  that ticker; every call that has settled returned the id of that one row, and none
  threw; a schedule that lets every call execute two statements settles them all.
\<close>

theorem getOrCreateStockId_race_safe:
  assumes "unique_tickers db"
    and "\<forall>c \<in> set cs. c_at c = AtSelect \<and> c_ticker c = tk"
    and "run_schedule resolve_step sched (cs, db) = (cs', db')"
  shows "length (rows_of db' tk) \<le> 1
       \<and> (\<forall>c \<in> set cs'. \<forall>r. c_at c = Settled r \<longrightarrow> (\<exists>s. rows_of db' tk = [s] \<and> r = Returned (s_id s)))
       \<and> ((\<forall>i < length cs. 2 \<le> count_list sched i) \<longrightarrow> (\<forall>c \<in> set cs'. \<exists>r. c_at c = Settled r))"
proof -
  have ok0: "\<forall>c \<in> set cs. resolved_ok db c"
    using assms(2) by (simp add: resolved_ok_def)
  note inv = run_schedule_inv[OF assms(1) ok0 assms(3)]
  have u: "unique_tickers db'" using inv by simp
  have le: "length (rows_of db' tk) \<le> 1"
    using u unfolding unique_tickers_def rows_of_def by (rule rows_of_unique)
  have tks: "\<forall>c \<in> set cs'. c_ticker c = tk"
  proof
    fix c assume "c \<in> set cs'"
    then have "c_ticker c \<in> set (map c_ticker cs')" by simp
    then have "c_ticker c \<in> set (map c_ticker cs)" using inv by simp
    then show "c_ticker c = tk" using assms(2) by auto
  qed
  have same_row: "\<forall>c \<in> set cs'. \<forall>r. c_at c = Settled r \<longrightarrow> (\<exists>s. rows_of db' tk = [s] \<and> r = Returned (s_id s))"
  proof (intro ballI allI impI)
    fix c r assume c: "c \<in> set cs'" and r: "c_at c = Settled r"
    have ok: "resolved_ok db' c" using inv c by simp
    then obtain i where i: "r = Returned i" "(i, tk) \<in> stock_keys db'"
      using r tks c by (cases r) (auto simp: resolved_ok_def)
    then obtain s where s: "s \<in> set (stocks db')" "s_id s = i" "s_ticker s = tk"
      by (auto simp: stock_keys_def)
    then have "s \<in> set (rows_of db' tk)" by (simp add: rows_of_def)
    then have "rows_of db' tk = [s]"
      using le by (cases "rows_of db' tk") auto
    then show "\<exists>s. rows_of db' tk = [s] \<and> r = Returned (s_id s)" using i s by simp
  qed
  have fair: "(\<forall>i < length cs. 2 \<le> count_list sched i) \<longrightarrow> (\<forall>c \<in> set cs'. \<exists>r. c_at c = Settled r)"
  proof (intro impI ballI)
    fix c assume fair: "\<forall>i < length cs. 2 \<le> count_list sched i" and c: "c \<in> set cs'"
    note pr = run_schedule_progress[OF assms(3)]
    from c obtain i where i: "i < length cs'" "cs' ! i = c" by (auto simp: in_set_conv_nth)
    then have il: "i < length cs" using pr by simp
    then have "cs ! i \<in> set cs" by simp
    then have "steps_left (c_at (cs ! i)) = 2" using assms(2) by simp
    then have "steps_left (c_at c) = 0" using pr il i fair by fastforce
    then show "\<exists>r. c_at c = Settled r" by (cases "c_at c") auto
  qed
  show ?thesis using le same_row fair by simp
qed

lemma run_aapl_twice:
  "run_schedule resolve_step [0, 1, 0, 1] (aapl_twice, empty_store) =
   ([\<lparr>c_ticker = ''AAPL'', c_name = ''Apple'', c_at = Settled (Returned 1)\<rparr>,
     \<lparr>c_ticker = ''AAPL'', c_name = ''Apple Inc'', c_at = Settled (Returned 1)\<rparr>],
    \<lparr>stocks = [\<lparr>s_id = 1, s_ticker = ''AAPL'', s_name = ''Apple Inc''\<rparr>], stocks_id_seq = 2,
     zacks_rankings = [], zacks_rankings_id_seq = 0\<rparr>)"
  by (simp add: aapl_twice_def new_call_def empty_store_def resolve_step_def select_stock_ids_def
      upsert_stock_def Let_def)

theorem getOrCreateStockId_race_safe_witness:
  "unique_tickers empty_store
   \<and> length (rows_of
        \<lparr>stocks = [\<lparr>s_id = 1, s_ticker = ''AAPL'', s_name = ''Apple Inc''\<rparr>], stocks_id_seq = 2,
         zacks_rankings = [], zacks_rankings_id_seq = 0\<rparr> ''AAPL'') \<le> 1"
proof -
  have u: "unique_tickers empty_store" by (simp add: unique_tickers_def empty_store_def)
  have a: "\<forall>c \<in> set aapl_twice. c_at c = AtSelect \<and> c_ticker c = ''AAPL''"
    by (simp add: aapl_twice_def new_call_def)
  show ?thesis
    using getOrCreateStockId_race_safe[OF u a run_aapl_twice] u by simp
qed

text \<open>
  \<^bold>\<open>Claim C1\<close> on \<^verbatim>\<open>getStockId\<close> of \<^verbatim>\<open>src/index.js\<close>: the resolver there is a lookup followed
  by a plain insert. Two calls for the unseen ticker AAPL, scheduled lookup, lookup,
  insert, insert: both lookups find nothing, the first insert creates the row, the second
  is refused by the ticker's uniqueness constraint and the call throws. One row exists,
  but the second call has no id to return.
\<close>

theorem index_getStockId_race:
  "run_schedule index_resolve_step [0, 1, 0, 1] (aapl_twice, empty_store) =
   ([\<lparr>c_ticker = ''AAPL'', c_name = ''Apple'', c_at = Settled (Returned 1)\<rparr>,
     \<lparr>c_ticker = ''AAPL'', c_name = ''Apple Inc'', c_at = Settled Threw\<rparr>],
    \<lparr>stocks = [\<lparr>s_id = 1, s_ticker = ''AAPL'', s_name = ''Apple''\<rparr>], stocks_id_seq = 2,
     zacks_rankings = [], zacks_rankings_id_seq = 0\<rparr>)"
  by (simp add: aapl_twice_def new_call_def empty_store_def index_resolve_step_def select_stock_ids_def
      insert_stock_def Let_def)

text \<open>
  The writer of part_000 (lines 143-190) on a valid ranking, with no store fault and an
  existing stock: when a row with the same (stock id, updatedAt) exists it is updated in
  place and the write is counted as an update; otherwise a row is appended and the write
  is counted as an insert. Two writes with the same key leave exactly one row under that
  key, holding the second write's values; the second write adds no row and is counted as
  an update.
\<close>

theorem saveZacksRanking_upsert:
  assumes "\<not> invalidRanking e d1" and "\<not> invalidRanking e d2"
    and "updatedAt d2 = updatedAt d1"
    and "save_fault e = NoFault"
    and "\<exists>s \<in> set (stocks db). s_id s = stockId"
    and "unique_rankings db"
    and "saveZacksRanking e db st stockId d1 = (res1, db1, st1)"
    and "saveZacksRanking e db1 st1 stockId d2 = (res2, db2, st2)"
  shows "(rankings_at db stockId (updatedAt d1) \<noteq> [] \<longrightarrow>
            res1 = Returned ()
          \<and> length (zacks_rankings db1) = length (zacks_rankings db)
          \<and> st1 = st\<lparr>totalUpdates := totalUpdates st + 1, successfulSaves := successfulSaves st + 1\<rparr>)
       \<and> (rankings_at db stockId (updatedAt d1) = [] \<longrightarrow>
            res1 = Returned ()
          \<and> length (zacks_rankings db1) = length (zacks_rankings db) + 1
          \<and> st1 = st\<lparr>totalInserts := totalInserts st + 1, successfulSaves := successfulSaves st + 1\<rparr>)
       \<and> (\<exists>r. rankings_at db1 stockId (updatedAt d1) = [r]
            \<and> rk_zacksRank r = zacksRank d1 \<and> rk_zacksRankText r = zacksRankText d1)
       \<and> (\<exists>r. rankings_at db2 stockId (updatedAt d1) = [r]
            \<and> rk_zacksRank r = zacksRank d2 \<and> rk_zacksRankText r = zacksRankText d2)
       \<and> res2 = Returned ()
       \<and> length (zacks_rankings db2) = length (zacks_rankings db1)
       \<and> st2 = st1\<lparr>totalUpdates := totalUpdates st1 + 1, successfulSaves := successfulSaves st1 + 1\<rparr>"
proof -
  note sv0 = saveZacksRanking_valid[OF assms(1,4,5), of st]
  have first: "\<exists>r. rankings_at db1 stockId (updatedAt d1) = [r]
            \<and> rk_zacksRank r = zacksRank d1 \<and> rk_zacksRankText r = zacksRankText d1"
    "unique_rankings db1" "stocks db1 = stocks db"
    using saveZacksRanking_rows[OF assms(1,4,5,6,7)] by auto
  have ex1: "\<exists>s \<in> set (stocks db1). s_id s = stockId" using assms(5) first(3) by simp
  have second: "\<exists>r. rankings_at db2 stockId (updatedAt d1) = [r]
            \<and> rk_zacksRank r = zacksRank d2 \<and> rk_zacksRankText r = zacksRankText d2"
    using saveZacksRanking_rows(1)[OF assms(2,4) ex1 first(2) assms(8)] assms(3) by simp
  have ne: "rankings_at db1 stockId (updatedAt d2) \<noteq> []" using first(1) assms(3) by auto
  note sv = saveZacksRanking_valid[OF assms(2,4) ex1, of st1]
  have a: "rankings_at db stockId (updatedAt d1) \<noteq> [] \<longrightarrow>
            res1 = Returned ()
          \<and> length (zacks_rankings db1) = length (zacks_rankings db)
          \<and> st1 = st\<lparr>totalUpdates := totalUpdates st + 1, successfulSaves := successfulSaves st + 1\<rparr>"
    using sv0 assms(7) by auto
  have b: "rankings_at db stockId (updatedAt d1) = [] \<longrightarrow>
            res1 = Returned ()
          \<and> length (zacks_rankings db1) = length (zacks_rankings db) + 1
          \<and> st1 = st\<lparr>totalInserts := totalInserts st + 1, successfulSaves := successfulSaves st + 1\<rparr>"
    using sv0 assms(7) by auto
  have c: "res2 = Returned ()" using sv assms(8) ne by auto
  have d: "length (zacks_rankings db2) = length (zacks_rankings db1)" using sv assms(8) ne by auto
  have e: "st2 = st1\<lparr>totalUpdates := totalUpdates st1 + 1, successfulSaves := successfulSaves st1 + 1\<rparr>"
    using sv assms(8) ne by auto
  show ?thesis using a b first(1) second c d e by blast
qed

lemma save_buy_then_hold:
  "saveZacksRanking env_buy db_aapl stats0 1 buy_T =
     (Returned (),
      db_aapl\<lparr>zacks_rankings_id_seq := 1,
        zacks_rankings := [\<lparr>rk_id = 1, rk_stock_id = 1, rk_zacksRankText = JStr ''Buy'',
          rk_zacksRank = JNum 2, rk_updatedAt = JDate (Some 1700000000000)\<rparr>]\<rparr>,
      stats0\<lparr>totalInserts := 1, successfulSaves := 1\<rparr>)"
  "saveZacksRanking env_buy
      (db_aapl\<lparr>zacks_rankings_id_seq := 1,
        zacks_rankings := [\<lparr>rk_id = 1, rk_stock_id = 1, rk_zacksRankText = JStr ''Buy'',
          rk_zacksRank = JNum 2, rk_updatedAt = JDate (Some 1700000000000)\<rparr>]\<rparr>)
      (stats0\<lparr>totalInserts := 1, successfulSaves := 1\<rparr>) 1 hold_T =
     (Returned (),
      db_aapl\<lparr>zacks_rankings_id_seq := 2,
        zacks_rankings := [\<lparr>rk_id = 1, rk_stock_id = 1, rk_zacksRankText = JStr ''Hold'',
          rk_zacksRank = JNum 3, rk_updatedAt = JDate (Some 1700000000000)\<rparr>]\<rparr>,
      stats0\<lparr>totalInserts := 1, totalUpdates := 1, successfulSaves := 2\<rparr>)"
  by (simp_all add: saveZacksRanking_def invalidRanking_def env_buy_def db_aapl_def buy_T_def hold_T_def
      stats0_def upsert_ranking_def ranking_conflicts_def new_ranking_def Let_def)

theorem saveZacksRanking_upsert_witness:
  "rankings_at
     (db_aapl\<lparr>zacks_rankings_id_seq := 2,
        zacks_rankings := [\<lparr>rk_id = 1, rk_stock_id = 1, rk_zacksRankText = JStr ''Hold'',
          rk_zacksRank = JNum 3, rk_updatedAt = JDate (Some 1700000000000)\<rparr>]\<rparr>)
     1 (JDate (Some 1700000000000))
   = [\<lparr>rk_id = 1, rk_stock_id = 1, rk_zacksRankText = JStr ''Hold'',
          rk_zacksRank = JNum 3, rk_updatedAt = JDate (Some 1700000000000)\<rparr>]
   \<and> unique_rankings db_aapl \<and> \<not> invalidRanking env_buy buy_T \<and> \<not> invalidRanking env_buy hold_T"
proof -
  have v: "\<not> invalidRanking env_buy buy_T" "\<not> invalidRanking env_buy hold_T"
    by (simp_all add: invalidRanking_def buy_T_def hold_T_def)
  have t: "updatedAt hold_T = updatedAt buy_T" by (simp add: buy_T_def hold_T_def)
  have f: "save_fault env_buy = NoFault" by (simp add: env_buy_def)
  have s: "\<exists>s \<in> set (stocks db_aapl). s_id s = 1" by (simp add: db_aapl_def)
  have u: "unique_rankings db_aapl" by (simp add: unique_rankings_def db_aapl_def)
  show ?thesis
    using saveZacksRanking_upsert[OF v t f s u save_buy_then_hold] u v
    by (auto simp: rankings_at_def buy_T_def hold_T_def)
qed

text \<open>
  \<^bold>\<open>Claim C2\<close> on \<^verbatim>\<open>saveZacksRanking\<close> of \<^verbatim>\<open>src/index.js\<close>: the writer there is a plain insert
  whose unique violation is swallowed. Writing Buy/2 and then Hold/3 for the same stock
  and instant leaves the single row holding the first value; the second write returns
  normally and changes no row.
\<close>

theorem index_saveZacksRanking_keeps_first_value:
  "(case index_saveZacksRanking db_aapl 1 buy_T of
      (res1, db1) \<Rightarrow>
        (case index_saveZacksRanking db1 1 hold_T of
           (res2, db2) \<Rightarrow> (res1, res2, zacks_rankings db2)))
   = (Returned (), Returned (),
      [\<lparr>rk_id = 1, rk_stock_id = 1, rk_zacksRankText = JStr ''Buy'', rk_zacksRank = JNum 2,
        rk_updatedAt = JDate (Some 1700000000000)\<rparr>])"
  by (simp add: index_saveZacksRanking_def insert_ranking_def ranking_conflicts_def new_ranking_def
      db_aapl_def buy_T_def hold_T_def Let_def)

text \<open>
  \<^bold>\<open>Claim C10.\<close> \<^verbatim>\<open>getOrCreateStockId\<close> (part_000, lines 116-141), statement by statement.
  When the lookup finds a row, the call returns that row's id and the store is left as it
  was: no name is overwritten and no row is created. The lookup itself never writes. The
  name is overwritten only by the insert statement of a call whose lookup found nothing,
  when a row of the ticker has appeared in between: then every row of the ticker takes
  the supplied name, no row is added, and the existing id is returned. When no row has
  appeared the insert appends the new row. A call that runs with no statement of another
  call in between therefore returns the existing id untouched or appends a row.
\<close>

theorem resolver_frame:
  "(select_stock_ids db tk = i # rows \<longrightarrow>
      getOrCreateStockId e db tk nm = (if resolve_fault e then Threw else Returned i, db))
   \<and> (select_stock_ids db tk = [] \<longrightarrow>
      getOrCreateStockId e db tk nm =
        (if resolve_fault e then (Threw, db)
         else (Returned (stocks_id_seq db + 1),
               db\<lparr>stocks_id_seq := stocks_id_seq db + 1,
                  stocks := stocks db @ [\<lparr>s_id = stocks_id_seq db + 1, s_ticker = tk, s_name = nm\<rparr>]\<rparr>)))
   \<and> (c_at c = AtSelect \<longrightarrow> snd (resolve_step c db) = db)
   \<and> (c_at c = AtSelect \<and> select_stock_ids db (c_ticker c) = i # rows \<longrightarrow>
        resolve_step c db = (c\<lparr>c_at := Settled (Returned i)\<rparr>, db))
   \<and> (c_at c = AtInsert \<and> rows_of db (c_ticker c) = s # others \<longrightarrow>
        resolve_step c db =
          (c\<lparr>c_at := Settled (Returned (s_id s))\<rparr>,
           db\<lparr>stocks_id_seq := stocks_id_seq db + 1,
              stocks := map (\<lambda>x. if s_ticker x = c_ticker c then x\<lparr>s_name := c_name c\<rparr> else x) (stocks db)\<rparr>))
   \<and> (c_at c = AtInsert \<and> rows_of db (c_ticker c) = [] \<longrightarrow>
        resolve_step c db =
          (c\<lparr>c_at := Settled (Returned (stocks_id_seq db + 1))\<rparr>,
           db\<lparr>stocks_id_seq := stocks_id_seq db + 1,
              stocks := stocks db @ [\<lparr>s_id = stocks_id_seq db + 1, s_ticker = c_ticker c, s_name = c_name c\<rparr>]\<rparr>))
   \<and> (c_at c = Settled r \<longrightarrow> resolve_step c db = (c, db))"
proof -
  have sel: "select_stock_ids db tk = [] \<Longrightarrow> filter (\<lambda>s. s_ticker s = tk) (stocks db) = []"
    by (simp add: select_stock_ids_def)
  have a: "select_stock_ids db tk = i # rows \<longrightarrow>
      getOrCreateStockId e db tk nm = (if resolve_fault e then Threw else Returned i, db)"
    by (simp add: getOrCreateStockId_def)
  have b: "select_stock_ids db tk = [] \<longrightarrow>
      getOrCreateStockId e db tk nm =
        (if resolve_fault e then (Threw, db)
         else (Returned (stocks_id_seq db + 1),
               db\<lparr>stocks_id_seq := stocks_id_seq db + 1,
                  stocks := stocks db @ [\<lparr>s_id = stocks_id_seq db + 1, s_ticker = tk, s_name = nm\<rparr>]\<rparr>))"
    using sel by (auto simp: getOrCreateStockId_def upsert_stock_def Let_def)
  have c1: "c_at c = AtSelect \<longrightarrow> snd (resolve_step c db) = db"
    by (simp add: resolve_step_def split: list.splits)
  have c2: "c_at c = AtSelect \<and> select_stock_ids db (c_ticker c) = i # rows \<longrightarrow>
        resolve_step c db = (c\<lparr>c_at := Settled (Returned i)\<rparr>, db)"
    by (simp add: resolve_step_def)
  have d1: "c_at c = AtInsert \<and> rows_of db (c_ticker c) = s # others \<longrightarrow>
        resolve_step c db =
          (c\<lparr>c_at := Settled (Returned (s_id s))\<rparr>,
           db\<lparr>stocks_id_seq := stocks_id_seq db + 1,
              stocks := map (\<lambda>x. if s_ticker x = c_ticker c then x\<lparr>s_name := c_name c\<rparr> else x) (stocks db)\<rparr>)"
    by (simp add: resolve_step_def upsert_stock_def rows_of_def Let_def)
  have d2: "c_at c = AtInsert \<and> rows_of db (c_ticker c) = [] \<longrightarrow>
        resolve_step c db =
          (c\<lparr>c_at := Settled (Returned (stocks_id_seq db + 1))\<rparr>,
           db\<lparr>stocks_id_seq := stocks_id_seq db + 1,
              stocks := stocks db @ [\<lparr>s_id = stocks_id_seq db + 1, s_ticker = c_ticker c, s_name = c_name c\<rparr>]\<rparr>)"
    by (simp add: resolve_step_def upsert_stock_def rows_of_def Let_def)
  have f: "c_at c = Settled r \<longrightarrow> resolve_step c db = (c, db)"
    by (simp add: resolve_step_def)
  show ?thesis using a b c1 c2 d1 d2 f by blast
qed

theorem resolver_frame_witness:
  "getOrCreateStockId env_buy db_aapl ''AAPL'' ''Apple Inc'' = (Returned 1, db_aapl)
   \<and> resolve_step \<lparr>c_ticker = ''AAPL'', c_name = ''Apple Inc'', c_at = AtInsert\<rparr> db_aapl =
       (\<lparr>c_ticker = ''AAPL'', c_name = ''Apple Inc'', c_at = Settled (Returned 1)\<rparr>,
        db_aapl\<lparr>stocks_id_seq := 2, stocks := [\<lparr>s_id = 1, s_ticker = ''AAPL'', s_name = ''Apple Inc''\<rparr>]\<rparr>)"
proof -
  have l: "select_stock_ids db_aapl ''AAPL'' = 1 # []"
    by (simp add: select_stock_ids_def db_aapl_def)
  have r: "rows_of db_aapl ''AAPL'' = \<lparr>s_id = 1, s_ticker = ''AAPL'', s_name = ''Apple''\<rparr> # []"
    by (simp add: rows_of_def db_aapl_def)
  have f: "\<not> resolve_fault env_buy" by (simp add: env_buy_def)
  show ?thesis
    using resolver_frame[where db = db_aapl and tk = "''AAPL''" and i = 1 and rows = "[]"
        and e = env_buy and nm = "''Apple Inc''"
        and c = "\<lparr>c_ticker = ''AAPL'', c_name = ''Apple Inc'', c_at = AtInsert\<rparr>"
        and s = "\<lparr>s_id = 1, s_ticker = ''AAPL'', s_name = ''Apple''\<rparr>" and others = "[]"]
      l r f
    by (simp add: db_aapl_def)
qed

section \<open>Properties of the run coordinator\<close>

lemma getDataWithRetry_from_stats:
  assumes "getDataWithRetry_from e attempt maxRetries delay st = (r, st', evs)"
  shows "totalProcessed st' = totalProcessed st \<and> successfulSaves st' = successfulSaves st
       \<and> failedSaves st' = failedSaves st \<and> failedProcessing st' = failedProcessing st
       \<and> totalInserts st' = totalInserts st \<and> totalUpdates st' = totalUpdates st
       \<and> noRankingStocks st' = noRankingStocks st + (if r = None then 1 else 0)"
  using assms
proof (induction e attempt maxRetries delay st arbitrary: r st' evs rule: getDataWithRetry_from.induct)
  case (1 e attempt maxRetries delay st)
  show ?case
  proof (cases "attempt \<le> maxRetries")
    case False
    then show ?thesis using 1(2) by (auto simp: getDataWithRetry_from.simps)
  next
    case True
    show ?thesis
    proof (cases "attemptBody e attempt st")
      case Raised
      obtain r1 st1 evs1 where rec: "getDataWithRetry_from e (attempt + 1) maxRetries delay st = (r1, st1, evs1)"
        by (cases "getDataWithRetry_from e (attempt + 1) maxRetries delay st") auto
      have "r = r1" "st' = st1"
        using 1(2) True Raised rec by (auto simp: getDataWithRetry_from.simps[of e attempt])
      then show ?thesis using 1(1)[OF True Raised rec] by simp
    next
      case (Finished r0 st0)
      then have "r = r0" "st' = st0"
        using 1(2) True by (auto simp: getDataWithRetry_from.simps[of e attempt])
      then show ?thesis using Finished
        by (auto simp: attemptBody_def split: api_result.splits if_splits)
    qed
  qed
qed

lemma saveZacksRanking_stats:
  assumes "saveZacksRanking e db st stockId d = (res, db', st')"
  shows "totalProcessed st' = totalProcessed st \<and> failedProcessing st' = failedProcessing st
       \<and> (res = Returned ()
            \<longrightarrow> failedSaves st' = failedSaves st
              \<and> successfulSaves st' + noRankingStocks st' = successfulSaves st + noRankingStocks st + 1)
       \<and> (res = Threw
            \<longrightarrow> successfulSaves st' = successfulSaves st
              \<and> (failedSaves st' = failedSaves st \<and> noRankingStocks st' = noRankingStocks st
                 \<or> failedSaves st' = failedSaves st + 1 \<and> noRankingStocks st' = noRankingStocks st + 1))"
  using assms
  by (auto simp: saveZacksRanking_def split: if_splits save_fault.splits prod.splits sum.splits)

lemma unitBody_stats:
  assumes "unitBody e tk nm db st = (res, db', st')"
  shows "res = Returned ()
       \<and> totalProcessed st' = totalProcessed st
       \<and> successfulSaves st' + noRankingStocks st' + failedSaves st
           = successfulSaves st + noRankingStocks st + failedSaves st' + 1"
proof -
  obtain r st1 evs where f: "getDataWithRetry_default e st = (r, st1, evs)"
    by (cases "getDataWithRetry_default e st") auto
  note fs = getDataWithRetry_from_stats[OF f[unfolded getDataWithRetry_default_def getDataWithRetry_def]]
  show ?thesis
  proof (cases r)
    case None
    then show ?thesis using assms f fs by (auto simp: unitBody_def)
  next
    case (Some d)
    obtain ro db1 where g: "getOrCreateStockId e db tk nm = (ro, db1)"
      by (cases "getOrCreateStockId e db tk nm") auto
    show ?thesis
    proof (cases ro)
      case Threw
      then show ?thesis using assms f fs Some g by (auto simp: unitBody_def)
    next
      case (Returned stockId)
      obtain rs db2 st2 where s: "saveZacksRanking e db1 st1 stockId d = (rs, db2, st2)"
        by (cases "saveZacksRanking e db1 st1 stockId d") auto
      note ss = saveZacksRanking_stats[OF s]
      show ?thesis
      proof (cases rs)
        case Threw
        then show ?thesis using assms f fs Some g Returned s ss by (auto simp: unitBody_def)
      next
        case (Returned u)
        then show ?thesis using assms f fs Some g \<open>ro = Returned stockId\<close> s ss by (auto simp: unitBody_def)
      qed
    qed
  qed
qed

lemma filter_update_less:
  assumes "i < length xs" and "P (xs ! i)" and "\<not> P y"
  shows "length (filter P (xs[i := y])) + 1 = length (filter P xs)"
  using assms
proof (induction xs arbitrary: i)
  case Nil
  then show ?case by simp
next
  case (Cons x xs)
  then show ?case by (cases i) auto
qed

lemma promiseAll_Resolved: "promiseAll hs = Some Resolved \<longleftrightarrow> Some Threw \<notin> set hs \<and> None \<notin> set hs"
  by (simp add: promiseAll_def)

lemma promiseAll_Rejected: "promiseAll hs = Some Rejected \<longleftrightarrow> Some Threw \<in> set hs"
  by (simp add: promiseAll_def)

lemma none_notin_states: "None \<notin> set (map u_state hs) \<longleftrightarrow> filter (\<lambda>h. u_state h = None) hs = []"
  by (induction hs) auto

lemma running_zero: "running c = 0 \<longleftrightarrow> None \<notin> set (map u_state (pendingPromises c))"
  unfolding running_def none_notin_states by simp

lemma running_simps [simp]:
  "running (c\<lparr>ended := b\<rparr>) = running c"
  "running (c\<lparr>settled := s\<rparr>) = running c"
  "running (c\<lparr>co_stats := st\<rparr>) = running c"
  "running (c\<lparr>co_store := db\<rparr>) = running c"
  by (simp_all add: running_def)

lemma coordinator_inv_start: "coordinator_inv (start db0)"
  by (simp add: coordinator_inv_def start_def stats0_def running_def)

lemma coordinate_inv:
  assumes "coordinator_inv c"
  shows "coordinator_inv (coordinate c ev)"
proof (cases ev)
  case (Data e tk nm)
  then show ?thesis using assms
    by (auto simp: coordinator_inv_def running_def)
next
  case End
  then show ?thesis using assms
    by (auto simp: coordinator_inv_def settle_def promiseAll_Resolved running_zero)
next
  case Error
  then show ?thesis using assms
    by (auto simp: coordinator_inv_def running_def settle_def)
next
  case (UnitDone i)
  show ?thesis
  proof (cases "i < length (pendingPromises c) \<and> u_state (pendingPromises c ! i) = None")
    case False
    then show ?thesis using assms UnitDone by auto
  next
    case True
    let ?h = "pendingPromises c ! i"
    obtain res db' st' where b: "unitBody (u_env ?h) (u_ticker ?h) (u_name ?h) (co_store c) (co_stats c) = (res, db', st')"
      by (cases "unitBody (u_env ?h) (u_ticker ?h) (u_name ?h) (co_store c) (co_stats c)") auto
    note us = unitBody_stats[OF b]
    let ?hs = "(pendingPromises c)[i := ?h\<lparr>u_state := Some res\<rparr>]"
    let ?c1 = "c\<lparr>pendingPromises := ?hs, co_store := db', co_stats := st'\<rparr>"
    have "length (filter (\<lambda>h. u_state h = None) ?hs) + 1
        = length (filter (\<lambda>h. u_state h = None) (pendingPromises c))"
      using True by (intro filter_update_less) simp_all
    then have run1: "running ?c1 + 1 = running c"
      unfolding running_def by simp
    have nothrew: "Some Threw \<notin> set (map u_state ?hs)"
    proof
      assume "Some Threw \<in> set (map u_state ?hs)"
      then obtain h where h: "h \<in> set ?hs" "u_state h = Some Threw" by auto
      then have "h = ?h\<lparr>u_state := Some res\<rparr> \<or> h \<in> set (pendingPromises c)"
        using set_update_subset_insert by fastforce
      then show False
      proof
        assume "h = ?h\<lparr>u_state := Some res\<rparr>"
        then show False using h us by simp
      next
        assume "h \<in> set (pendingPromises c)"
        then have "u_state h \<in> set (map u_state (pendingPromises c))" by simp
        then show False using h assms by (simp add: coordinator_inv_def)
      qed
    qed
    have notres: "settled c \<noteq> Some Resolved"
      using assms True run1 by (auto simp: coordinator_inv_def)
    have bal: "successfulSaves st' + noRankingStocks st' + running ?c1 = totalProcessed st' + failedSaves st'"
      using assms us run1 by (simp add: coordinator_inv_def)
    have c1: "coordinator_inv ?c1"
      using bal nothrew notres by (simp add: coordinator_inv_def)
    have step: "coordinate c ev = (if ended c then settle (promiseAll (map u_state ?hs)) ?c1 else ?c1)"
      using UnitDone True b by simp
    show ?thesis
    proof (cases "ended c")
      case False
      then show ?thesis using step c1 by simp
    next
      case e: True
      show ?thesis
      proof (cases "settled c = None")
        case False
        then show ?thesis using step c1 e by (auto simp: settle_def)
      next
        case n: True
        have "coordinator_inv (?c1\<lparr>settled := promiseAll (map u_state ?hs)\<rparr>)"
          using bal nothrew e
          by (auto simp: coordinator_inv_def promiseAll_Resolved running_zero)
        then show ?thesis using step e n by (simp add: settle_def)
      qed
    qed
  qed
qed

lemma processCSV_inv:
  assumes "coordinator_inv c"
  shows "coordinator_inv (processCSV evs c)"
  using assms by (induction evs arbitrary: c) (auto simp: coordinate_inv)

lemma coordinate_Rejected:
  assumes "coordinator_inv c" and "settled (coordinate c ev) = Some Rejected"
  shows "settled c = Some Rejected \<or> ev = Error"
proof -
  have "coordinator_inv (coordinate c ev)" using assms(1) by (rule coordinate_inv)
  then have nt: "Some Threw \<notin> set (map u_state (pendingPromises (coordinate c ev)))"
    by (simp add: coordinator_inv_def)
  show ?thesis
  proof (cases ev)
    case (Data e tk nm)
    then show ?thesis using assms(2) by (auto split: if_splits)
  next
    case End
    then show ?thesis using assms nt
      by (auto simp: settle_def promiseAll_def coordinator_inv_def split: if_splits)
  next
    case Error
    then show ?thesis by simp
  next
    case (UnitDone i)
    then show ?thesis using assms(2) nt
      by (auto simp: settle_def promiseAll_def split: if_splits prod.splits)
  qed
qed

lemma processCSV_Rejected:
  assumes "coordinator_inv c" and "settled (processCSV evs c) = Some Rejected"
  shows "settled c = Some Rejected \<or> Error \<in> set evs"
  using assms
proof (induction evs arbitrary: c)
  case Nil
  then show ?case by simp
next
  case (Cons ev evs)
  show ?case
  proof (cases "settled c = None")
    case False
    then show ?thesis using Cons.prems by simp
  next
    case True
    then have "settled (processCSV evs (coordinate c ev)) = Some Rejected" using Cons.prems by simp
    from Cons.IH[OF coordinate_inv[OF Cons.prems(1)] this]
    show ?thesis using coordinate_Rejected[OF Cons.prems(1)] True by auto
  qed
qed

lemma coordinate_ended:
  assumes "ended (coordinate c ev)"
  shows "ended c \<or> ev = End"
  using assms by (cases ev) (auto simp: settle_def split: if_splits prod.splits)

lemma processCSV_ended:
  assumes "ended (processCSV evs c)"
  shows "ended c \<or> End \<in> set evs"
  using assms
proof (induction evs arbitrary: c)
  case Nil
  then show ?case by simp
next
  case (Cons ev evs)
  then show ?case using coordinate_ended by (fastforce split: if_splits)
qed

lemma processCSV_settled: "settled c \<noteq> None \<Longrightarrow> processCSV evs c = c"
  by (cases evs) auto

lemma processCSV_append: "processCSV (xs @ ys) c = processCSV ys (processCSV xs c)"
proof (induction xs arbitrary: c)
  case Nil
  then show ?case by simp
next
  case (Cons x xs)
  then show ?case by (auto simp: processCSV_settled)
qed

lemma handle_row_update:
  "map handle_row (hs[i := (hs ! i)\<lparr>u_state := s\<rparr>]) = map handle_row hs"
proof (cases "i < length hs")
  case True
  have "map handle_row (hs[i := (hs ! i)\<lparr>u_state := s\<rparr>]) = (map handle_row hs)[i := map handle_row hs ! i]"
    using True by (simp add: map_update handle_row_def)
  then show ?thesis by (simp only: list_update_id)
next
  case False
  then have "length hs \<le> i" by simp
  then show ?thesis by (simp only: list_update_beyond)
qed

lemma coordinate_rows:
  "map handle_row (pendingPromises (coordinate c ev)) =
     map handle_row (pendingPromises c) @
       (case ev of Data e tk nm \<Rightarrow> (if ended c then [] else [(tk, nm)]) | _ \<Rightarrow> [])"
  by (cases ev) (auto simp: settle_def handle_row_update handle_row_def split: prod.splits)

lemma coordinate_stays_ended: "ended c \<Longrightarrow> ended (coordinate c ev)"
  by (cases ev) (auto simp: settle_def split: prod.splits)

lemma coordinate_open:
  assumes "\<not> ended c" and "settled c = None" and "ev \<noteq> End" and "ev \<noteq> Error"
  shows "\<not> ended (coordinate c ev) \<and> settled (coordinate c ev) = None"
  using assms by (cases ev) (auto split: prod.splits)

lemma handles_after_end:
  assumes "ended c"
  shows "map handle_row (pendingPromises (processCSV evs c)) = map handle_row (pendingPromises c)"
  using assms
proof (induction evs arbitrary: c)
  case Nil
  then show ?case by simp
next
  case (Cons ev evs)
  have "map handle_row (pendingPromises (coordinate c ev)) = map handle_row (pendingPromises c)"
    using Cons.prems by (simp add: coordinate_rows split: stream_event.splits)
  then show ?case using Cons.IH[OF coordinate_stays_ended[OF Cons.prems]] by simp
qed

lemma handles_are_rows:
  assumes "\<not> ended c" and "settled c = None"
  shows "map handle_row (pendingPromises (processCSV evs c)) = map handle_row (pendingPromises c) @ yielded evs"
  using assms
proof (induction evs arbitrary: c)
  case Nil
  then show ?case by simp
next
  case (Cons ev evs)
  show ?case
  proof (cases ev)
    case (Data e tk nm)
    have o: "\<not> ended (coordinate c ev) \<and> settled (coordinate c ev) = None"
      by (rule coordinate_open[OF Cons.prems]) (simp_all add: Data)
    have rows: "map handle_row (pendingPromises (coordinate c ev)) = map handle_row (pendingPromises c) @ [(tk, nm)]"
      using Data Cons.prems by (simp add: coordinate_rows del: coordinate.simps)
    show ?thesis using Cons.IH[of "coordinate c ev"] o rows Cons.prems Data
      by (simp del: coordinate.simps)
  next
    case (UnitDone i)
    have o: "\<not> ended (coordinate c ev) \<and> settled (coordinate c ev) = None"
      by (rule coordinate_open[OF Cons.prems]) (simp_all add: UnitDone)
    have rows: "map handle_row (pendingPromises (coordinate c ev)) = map handle_row (pendingPromises c)"
      using UnitDone by (simp add: coordinate_rows del: coordinate.simps)
    show ?thesis using Cons.IH[of "coordinate c ev"] o rows Cons.prems UnitDone
      by (simp del: coordinate.simps)
  next
    case End
    have "ended (coordinate c End)" by (simp add: settle_def)
    then have "map handle_row (pendingPromises (processCSV evs (coordinate c End)))
        = map handle_row (pendingPromises (coordinate c End))"
      by (rule handles_after_end)
    then show ?thesis using End Cons.prems by (simp add: coordinate_rows del: coordinate.simps)
  next
    case Error
    have "settled (coordinate c Error) \<noteq> None" using Cons.prems by (simp add: settle_def)
    then have "processCSV evs (coordinate c Error) = coordinate c Error"
      by (rule processCSV_settled)
    then show ?thesis using Error Cons.prems by (simp add: settle_def)
  qed
qed

lemma processCSV_open:
  assumes "\<not> ended c" and "settled c = None" and "End \<notin> set evs" and "Error \<notin> set evs"
  shows "\<not> ended (processCSV evs c) \<and> settled (processCSV evs c) = None"
  using assms
proof (induction evs arbitrary: c)
  case Nil
  then show ?case by simp
next
  case (Cons ev evs)
  have "\<not> ended (coordinate c ev) \<and> settled (coordinate c ev) = None"
    using Cons.prems by (intro coordinate_open) auto
  then show ?case using Cons.IH[of "coordinate c ev"] Cons.prems by simp
qed

lemma stream_error_rejects:
  assumes "End \<notin> set pre" and "Error \<notin> set pre"
  shows "settled (processCSV (pre @ Error # post) (start db0)) = Some Rejected"
proof -
  have o: "\<not> ended (processCSV pre (start db0)) \<and> settled (processCSV pre (start db0)) = None"
    using assms by (intro processCSV_open) (simp_all add: start_def)
  have "settled (coordinate (processCSV pre (start db0)) Error) = Some Rejected"
    using o by (simp add: settle_def)
  then have "processCSV post (coordinate (processCSV pre (start db0)) Error)
      = coordinate (processCSV pre (start db0)) Error"
    by (intro processCSV_settled) simp
  then show ?thesis using o by (simp add: processCSV_append settle_def)
qed

lemma all_settled:
  assumes "coordinator_inv c" and "settled c = Some Resolved" and "h \<in> set (pendingPromises c)"
  shows "u_state h = Some (Returned ())"
proof -
  have r: "running c = 0" and nt: "Some Threw \<notin> set (map u_state (pendingPromises c))"
    using assms(1,2) by (simp_all add: coordinator_inv_def)
  have "u_state h \<in> set (map u_state (pendingPromises c))" using assms(3) by simp
  then have "u_state h \<noteq> None" "u_state h \<noteq> Some Threw"
    using r nt unfolding running_zero by metis+
  then show ?thesis by (cases "u_state h") (auto, metis outcome.exhaust old.unit.exhaust)
qed

section \<open>Claims about the run\<close>

lemma fetch_first_attempt:
  assumes "api e 1 = Returns (PRecord d)"
    and "\<not> loose_null (zacksRank d)" and "\<not> loose_null (zacksRankText d)"
  shows "getDataWithRetry_default e st =
     (Some (d\<lparr>updatedAt := normalizeUpdatedAt e (updatedAt d)\<rparr>), st, [Call 1])"
proof -
  have body: "attemptBody e 1 st = Finished (Some (d\<lparr>updatedAt := normalizeUpdatedAt e (updatedAt d)\<rparr>)) st"
    using assms by (simp add: attemptBody_def)
  have h: "\<forall>a. 1 \<le> a \<and> a < 1 \<longrightarrow> attempt_fails e a" by auto
  show ?thesis
    unfolding getDataWithRetry_default_def
    using getDataWithRetry_finishes[of 1 3 e st _ _ 1000, OF _ _ h body] by simp
qed

lemma fetch_buy:
  "getDataWithRetry_default env_save_fails st = (Some buy_T, st, [Call 1])"
  "getDataWithRetry_default env_resolve_fails st = (Some buy_T, st, [Call 1])"
  "getDataWithRetry_default env_buy st = (Some buy_T, st, [Call 1])"
proof -
  have n: "\<And>e. buy_T\<lparr>updatedAt := normalizeUpdatedAt e (updatedAt buy_T)\<rparr> = buy_T"
    by (simp add: buy_T_def normalizeUpdatedAt_def)
  show "getDataWithRetry_default env_save_fails st = (Some buy_T, st, [Call 1])"
    using fetch_first_attempt[of env_save_fails buy_T st] n
    by (simp add: env_save_fails_def buy_T_def)
  show "getDataWithRetry_default env_resolve_fails st = (Some buy_T, st, [Call 1])"
    using fetch_first_attempt[of env_resolve_fails buy_T st] n
    by (simp add: env_resolve_fails_def buy_T_def)
  show "getDataWithRetry_default env_buy st = (Some buy_T, st, [Call 1])"
    using fetch_first_attempt[of env_buy buy_T st] n
    by (simp add: env_buy_def buy_T_def)
qed

lemma run_save_fails_result:
  "processCSV run_save_fails (start empty_store) =
     \<lparr>pendingPromises = [\<lparr>u_env = env_save_fails, u_ticker = ''AAPL'', u_name = ''Apple'',
                           u_state = Some (Returned ())\<rparr>],
      ended = True, settled = Some Resolved,
      co_store = \<lparr>stocks = [\<lparr>s_id = 1, s_ticker = ''AAPL'', s_name = ''Apple''\<rparr>], stocks_id_seq = 1,
                   zacks_rankings = [], zacks_rankings_id_seq = 0\<rparr>,
      co_stats = stats0\<lparr>totalProcessed := 1, failedSaves := 1, noRankingStocks := 2,
                         failedProcessing := 1\<rparr>\<rparr>"
proof -
  have s: "save_fault env_save_fails = QueryFails" "\<not> resolve_fault env_save_fails"
    by (simp_all add: env_save_fails_def)
  have v: "\<not> invalidRanking env_save_fails buy_T"
    by (simp add: invalidRanking_def buy_T_def)
  show ?thesis
    by (simp add: run_save_fails_def start_def settle_def promiseAll_def unitBody_def fetch_buy
        getOrCreateStockId_def select_stock_ids_def upsert_stock_def saveZacksRanking_def s v
        empty_store_def stats0_def Let_def)
qed


lemma run_one_fails_result:
  "processCSV run_one_fails (start empty_store) =
     \<lparr>pendingPromises =
        [\<lparr>u_env = env_resolve_fails, u_ticker = ''AAPL'', u_name = ''Apple'', u_state = Some (Returned ())\<rparr>,
         \<lparr>u_env = env_buy, u_ticker = ''MSFT'', u_name = ''Microsoft'', u_state = Some (Returned ())\<rparr>],
      ended = True, settled = Some Resolved,
      co_store =
        \<lparr>stocks = [\<lparr>s_id = 1, s_ticker = ''MSFT'', s_name = ''Microsoft''\<rparr>], stocks_id_seq = 1,
         zacks_rankings = [\<lparr>rk_id = 1, rk_stock_id = 1, rk_zacksRankText = JStr ''Buy'',
            rk_zacksRank = JNum 2, rk_updatedAt = JDate (Some 1700000000000)\<rparr>],
         zacks_rankings_id_seq = 1\<rparr>,
      co_stats = stats0\<lparr>totalProcessed := 2, successfulSaves := 1, noRankingStocks := 1,
                         totalInserts := 1, failedProcessing := 1\<rparr>\<rparr>"
proof -
  have s: "resolve_fault env_resolve_fails" "\<not> resolve_fault env_buy" "save_fault env_buy = NoFault"
    by (simp_all add: env_resolve_fails_def env_buy_def)
  have v: "\<not> invalidRanking env_buy buy_T"
    by (simp add: invalidRanking_def buy_T_def)
  show ?thesis
    by (simp add: run_one_fails_def start_def settle_def promiseAll_def unitBody_def fetch_buy
        getOrCreateStockId_def select_stock_ids_def upsert_stock_def saveZacksRanking_def s v
        upsert_ranking_def ranking_conflicts_def new_ranking_def buy_T_def invalidRanking_def
        empty_store_def stats0_def Let_def)
qed

text \<open>
  \<^bold>\<open>Claim C3\<close> on a run of one row whose ranking is fetched and whose write to the store
  fails: the run completes with \<open>totalProcessed = 1\<close>, while \<open>failedSaves = 1\<close> and
  \<open>noRankingStocks = 2\<close> (lines 184-185 count the row in both, line 284 counts it in
  \<open>noRankingStocks\<close> again), so the right-hand side of the identity is 3.
\<close>

theorem failed_write_is_counted_three_times:
  "settled (processCSV run_save_fails (start empty_store)) = Some Resolved
   \<and> co_stats (processCSV run_save_fails (start empty_store)) =
       stats0\<lparr>totalProcessed := 1, failedSaves := 1, noRankingStocks := 2, failedProcessing := 1\<rparr>
   \<and> totalProcessed (co_stats (processCSV run_save_fails (start empty_store))) = 1
   \<and> successfulSaves (co_stats (processCSV run_save_fails (start empty_store)))
       + failedSaves (co_stats (processCSV run_save_fails (start empty_store)))
       + noRankingStocks (co_stats (processCSV run_save_fails (start empty_store))) = 3"
  by (simp add: run_save_fails_result stats0_def)

text \<open>
  The identity the counters do satisfy, at every moment of every run: the rows counted as
  processed, plus the failed saves, are the successful saves plus the no-ranking rows plus
  the units still running. When the run has resolved no unit runs, and the sum
  \<open>successfulSaves + failedSaves + noRankingStocks\<close> exceeds \<open>totalProcessed\<close> by twice the
  number of failed saves.
\<close>

theorem counter_balance:
  "successfulSaves (co_stats (processCSV evs (start db0)))
     + noRankingStocks (co_stats (processCSV evs (start db0)))
     + running (processCSV evs (start db0))
   = totalProcessed (co_stats (processCSV evs (start db0)))
     + failedSaves (co_stats (processCSV evs (start db0)))
   \<and> (settled (processCSV evs (start db0)) = Some Resolved \<longrightarrow>
        successfulSaves (co_stats (processCSV evs (start db0)))
          + failedSaves (co_stats (processCSV evs (start db0)))
          + noRankingStocks (co_stats (processCSV evs (start db0)))
        = totalProcessed (co_stats (processCSV evs (start db0)))
          + 2 * failedSaves (co_stats (processCSV evs (start db0))))"
proof -
  have "coordinator_inv (processCSV evs (start db0))"
    by (rule processCSV_inv[OF coordinator_inv_start])
  then show ?thesis by (auto simp: coordinator_inv_def)
qed

theorem counter_balance_witness:
  "successfulSaves (co_stats (processCSV run_one_fails (start empty_store)))
     + failedSaves (co_stats (processCSV run_one_fails (start empty_store)))
     + noRankingStocks (co_stats (processCSV run_one_fails (start empty_store)))
   = totalProcessed (co_stats (processCSV run_one_fails (start empty_store)))
     + 2 * failedSaves (co_stats (processCSV run_one_fails (start empty_store)))
   \<and> settled (processCSV run_one_fails (start empty_store)) = Some Resolved"
proof -
  have r: "settled (processCSV run_one_fails (start empty_store)) = Some Resolved"
    by (simp add: run_one_fails_result)
  show ?thesis using counter_balance[of run_one_fails empty_store] r by simp
qed

lemma index_unit_fulfils: "fst (index_unit e tk nm db) = Returned ()"
  by (simp add: index_unit_def split: prod.splits option.splits outcome.splits)

lemma unitBody_resolve_fault:
  assumes "resolve_fault e" and "getDataWithRetry_default e st = (Some d, st1, evs)"
  shows "unitBody e tk nm db st =
     (Returned (), db,
      st1\<lparr>failedProcessing := failedProcessing st1 + 1, noRankingStocks := noRankingStocks st1 + 1\<rparr>)"
  using assms by (simp add: unitBody_def getOrCreateStockId_def)

lemma unitBody_save_fault:
  assumes "\<not> resolve_fault e" and "save_fault e = QueryFails"
    and "getDataWithRetry_default e st = (Some d, st1, evs)" and "\<not> invalidRanking e d"
  shows "failedProcessing (snd (snd (unitBody e tk nm db st))) = failedProcessing st1 + 1
       \<and> failedSaves (snd (snd (unitBody e tk nm db st))) = failedSaves st1 + 1"
  using assms
  by (simp add: unitBody_def getOrCreateStockId_def saveZacksRanking_def
      split: list.splits prod.splits)

lemma coordinate_siblings:
  assumes "j \<noteq> i" and "j < length (pendingPromises c)"
  shows "pendingPromises (coordinate c (UnitDone i)) ! j = pendingPromises c ! j"
  using assms by (auto simp: settle_def split: prod.splits)

lemma coordinate_keeps_handles:
  "length (pendingPromises c) \<le> length (pendingPromises (coordinate c ev))"
  by (cases ev) (auto simp: settle_def split: prod.splits)

lemma coordinate_runs_unit:
  assumes "i < length (pendingPromises c)" and "u_state (pendingPromises c ! i) = None"
  shows "unitBody (u_env (pendingPromises c ! i)) (u_ticker (pendingPromises c ! i))
            (u_name (pendingPromises c ! i)) (co_store c) (co_stats c)
          = (Returned (), co_store (coordinate c (UnitDone i)), co_stats (coordinate c (UnitDone i)))
       \<and> u_state (pendingPromises (coordinate c (UnitDone i)) ! i) = Some (Returned ())"
proof -
  let ?h = "pendingPromises c ! i"
  obtain res db' st' where b: "unitBody (u_env ?h) (u_ticker ?h) (u_name ?h) (co_store c) (co_stats c) = (res, db', st')"
    by (cases "unitBody (u_env ?h) (u_ticker ?h) (u_name ?h) (co_store c) (co_stats c)") auto
  have r: "res = Returned ()" using unitBody_stats[OF b] by simp
  show ?thesis using assms b r by (auto simp: settle_def)
qed

lemma closePool_closes:
  "closePool logs (map Stream mid @ PoolClosed # rest) c =
     Some (logs @ [ConnectionsClosed] @ summary (co_stats (foldl coordinate c mid)) @ [ProgramCompleted], 0)"
  by (induction mid arbitrary: c) simp_all

lemma processCSV_unsettled:
  assumes "settled (processCSV (ev # evs) c) = None"
  shows "settled c = None \<and> settled (coordinate c ev) = None"
proof -
  have a: "settled c = None" using assms by (auto split: if_splits)
  have "settled (processCSV evs (coordinate c ev)) = None" using assms a by simp
  then have "settled (coordinate c ev) = None"
    by (cases "settled (coordinate c ev) = None") (auto simp: processCSV_settled)
  then show ?thesis using a by simp
qed

lemma awaitCSV_waits:
  assumes "settled (processCSV pre c) = None"
  shows "awaitCSV (map Stream pre @ rest) c = awaitCSV rest (processCSV pre c)"
  using assms
proof (induction pre arbitrary: c)
  case Nil
  then show ?case by simp
next
  case (Cons ev pre)
  note u = processCSV_unsettled[OF Cons.prems]
  have "settled (processCSV pre (coordinate c ev)) = None" using Cons.prems u by simp
  from Cons.IH[OF this] show ?case using u by simp
qed

lemma closePool_status:
  assumes "closePool logs pes c = Some out" and "ReadError \<notin> set pes" and "ConnectionLost \<notin> set pes"
  shows "\<exists>st. out = (logs @ [ConnectionsClosed] @ summary st @ [ProgramCompleted], 0)"
  using assms
proof (induction logs pes c rule: closePool.induct)
qed auto

lemma awaitCSV_status:
  assumes "awaitCSV pes c = Some out" and "ReadError \<notin> set pes" and "ConnectionLost \<notin> set pes"
  shows "\<exists>first st. out = ([first, ConnectionsClosed] @ summary st @ [ProgramCompleted], 0)
            \<and> (first = CsvCompleted \<or> first = ErrorProcessingCSV)"
  using assms
proof (induction pes c rule: awaitCSV.induct)
  case (5 ev pes c)
  show ?case
  proof (cases "settled (coordinate c ev)")
    case None
    then show ?thesis using "5.IH" "5.prems" by simp
  next
    case (Some s)
    show ?thesis
    proof (cases s)
      case Resolved
      then have "closePool [CsvCompleted] pes (coordinate c ev) = Some out"
        using "5.prems"(1) Some by simp
      from closePool_status[OF this] "5.prems"(2,3) show ?thesis by auto
    next
      case Rejected
      then have "closePool [ErrorProcessingCSV] pes (coordinate c ev) = Some out"
        using "5.prems"(1) Some by simp
      from closePool_status[OF this] "5.prems"(2,3) show ?thesis by auto
    qed
  qed
qed auto

lemma closePool_lines:
  assumes "closePool logs pes c = Some out" and "ErrorProcessingCSV \<in> set (fst out)"
  shows "ErrorProcessingCSV \<in> set logs"
  using assms
proof (induction logs pes c rule: closePool.induct)
qed (auto simp: summary_def)

lemma awaitCSV_rejected:
  assumes "awaitCSV pes c = Some out" and "ErrorProcessingCSV \<in> set (fst out)"
    and "coordinator_inv c" and "settled c = None"
  shows "Stream Error \<in> set pes"
  using assms
proof (induction pes c rule: awaitCSV.induct)
  case (5 ev pes c)
  show ?case
  proof (cases "settled (coordinate c ev)")
    case None
    then show ?thesis using "5.IH" "5.prems" coordinate_inv[OF "5.prems"(3)] by simp
  next
    case (Some s)
    show ?thesis
    proof (cases s)
      case Resolved
      then have "closePool [CsvCompleted] pes (coordinate c ev) = Some out"
        using "5.prems"(1) Some by simp
      from closePool_lines[OF this "5.prems"(2)] show ?thesis by simp
    next
      case Rejected
      then have "ev = Error"
        using coordinate_Rejected[OF "5.prems"(3), of ev] Some "5.prems"(4) by simp
      then show ?thesis by simp
    qed
  qed
qed auto

lemma closePool_no_MainError:
  assumes "closePool logs pes c = Some out" and "MainError \<in> set (fst out)"
  shows "MainError \<in> set logs"
  using assms
proof (induction logs pes c rule: closePool.induct)
qed (auto simp: summary_def)

lemma awaitCSV_no_MainError:
  assumes "awaitCSV pes c = Some out"
  shows "MainError \<notin> set (fst out)"
  using assms
proof (induction pes c rule: awaitCSV.induct)
  case (5 ev pes c)
  show ?case
  proof (cases "settled (coordinate c ev)")
    case None
    then show ?thesis using "5.IH" "5.prems" by simp
  next
    case (Some s)
    show ?thesis
    proof (cases s)
      case Resolved
      then have "closePool [CsvCompleted] pes (coordinate c ev) = Some out"
        using "5.prems" Some by simp
      from closePool_no_MainError[OF this] show ?thesis by auto
    next
      case Rejected
      then have "closePool [ErrorProcessingCSV] pes (coordinate c ev) = Some out"
        using "5.prems" Some by simp
      from closePool_no_MainError[OF this] show ?thesis by auto
    qed
  qed
qed auto

lemma main_after_settlement:
  assumes "settled (processCSV pre (start db0)) = None"
    and "settled (coordinate (processCSV pre (start db0)) ev) = Some s"
  shows "main True db0 (map Stream pre @ Stream ev # map Stream mid @ PoolClosed # rest) =
          Some ([if s = Resolved then CsvCompleted else ErrorProcessingCSV, ConnectionsClosed]
                @ summary (co_stats (foldl coordinate (coordinate (processCSV pre (start db0)) ev) mid))
                @ [ProgramCompleted], 0)"
proof -
  have "main True db0 (map Stream pre @ Stream ev # map Stream mid @ PoolClosed # rest)
      = awaitCSV (Stream ev # map Stream mid @ PoolClosed # rest) (processCSV pre (start db0))"
    using awaitCSV_waits[OF assms(1)] by (simp add: main_def)
  then show ?thesis
    using assms(2) by (cases s) (simp_all add: closePool_closes)
qed

text \<open>
  What the coordinator does with the rejections of a run, from the start of \<^verbatim>\<open>processCSV\<close>
  and for every sequence of stream events: the handles are, in order, the rows the stream
  yielded (one unit per row), and no event drops a handle; the run is resolved only when
  the stream has signalled its end and every handle is fulfilled; it is rejected only
  when the stream itself failed. The promise of a unit is never rejected, whatever the
  provider answers and whichever store call is rejected (also in \<^verbatim>\<open>src/index.js\<close>, whose
  unit has the same \<^verbatim>\<open>try\<close>/\<^verbatim>\<open>catch\<close> and no counters): a rejected store call in the resolver is
  caught, the row is counted once in \<open>failedProcessing\<close> (and in \<open>noRankingStocks\<close>), and
  the store is left as it was; a rejected store call in the writer is caught and counted
  once in \<open>failedProcessing\<close> and once in \<open>failedSaves\<close>. A unit that finishes changes no
  handle but its own, and the store and the counters of the run after it are those its
  body (\<open>unitBody\<close>, on the row of its handle) returns from the store and the counters
  before it.
\<close>

theorem coordinator_completion:
  "map handle_row (pendingPromises (processCSV evs (start db0))) = yielded evs
   \<and> length (pendingPromises c) \<le> length (pendingPromises (coordinate c ev))
   \<and> (settled (processCSV evs (start db0)) = Some Resolved \<longrightarrow>
        End \<in> set evs \<and> ended (processCSV evs (start db0))
        \<and> (\<forall>h \<in> set (pendingPromises (processCSV evs (start db0))). u_state h = Some (Returned ())))
   \<and> (settled (processCSV evs (start db0)) = Some Rejected \<longrightarrow> Error \<in> set evs)
   \<and> (\<forall>h \<in> set (pendingPromises (processCSV evs (start db0))). u_state h \<noteq> Some Threw)
   \<and> fst (unitBody e tk nm db st) = Returned ()
   \<and> fst (index_unit e tk nm db) = Returned ()
   \<and> (resolve_fault e \<and> getDataWithRetry_default e st = (Some d, st1, tr) \<longrightarrow>
        unitBody e tk nm db st =
          (Returned (), db,
           st1\<lparr>failedProcessing := failedProcessing st1 + 1, noRankingStocks := noRankingStocks st1 + 1\<rparr>))
   \<and> (\<not> resolve_fault e \<and> save_fault e = QueryFails
        \<and> getDataWithRetry_default e st = (Some d, st1, tr) \<and> \<not> invalidRanking e d \<longrightarrow>
        failedProcessing (snd (snd (unitBody e tk nm db st))) = failedProcessing st1 + 1
        \<and> failedSaves (snd (snd (unitBody e tk nm db st))) = failedSaves st1 + 1)
   \<and> (j \<noteq> i \<and> j < length (pendingPromises c) \<longrightarrow>
        pendingPromises (coordinate c (UnitDone i)) ! j = pendingPromises c ! j)
   \<and> (i < length (pendingPromises c) \<and> u_state (pendingPromises c ! i) = None \<longrightarrow>
        unitBody (u_env (pendingPromises c ! i)) (u_ticker (pendingPromises c ! i))
            (u_name (pendingPromises c ! i)) (co_store c) (co_stats c)
          = (Returned (), co_store (coordinate c (UnitDone i)), co_stats (coordinate c (UnitDone i)))
        \<and> u_state (pendingPromises (coordinate c (UnitDone i)) ! i) = Some (Returned ()))"
proof -
  let ?c = "processCSV evs (start db0)"
  have inv: "coordinator_inv ?c" by (rule processCSV_inv[OF coordinator_inv_start])
  have rows: "map handle_row (pendingPromises ?c) = yielded evs"
    using handles_are_rows[of "start db0" evs] by (simp add: start_def)
  have res: "settled ?c = Some Resolved \<longrightarrow>
        End \<in> set evs \<and> ended ?c \<and> (\<forall>h \<in> set (pendingPromises ?c). u_state h = Some (Returned ()))"
  proof
    assume r: "settled ?c = Some Resolved"
    then have e: "ended ?c" using inv by (simp add: coordinator_inv_def)
    then have "End \<in> set evs" using processCSV_ended[of evs "start db0"] by (simp add: start_def)
    then show "End \<in> set evs \<and> ended ?c \<and> (\<forall>h \<in> set (pendingPromises ?c). u_state h = Some (Returned ()))"
      using e all_settled[OF inv r] by simp
  qed
  have rej: "settled ?c = Some Rejected \<longrightarrow> Error \<in> set evs"
    using processCSV_Rejected[OF coordinator_inv_start, of evs db0] by (simp add: start_def)
  have nothrew: "\<forall>h \<in> set (pendingPromises ?c). u_state h \<noteq> Some Threw"
  proof
    fix h assume "h \<in> set (pendingPromises ?c)"
    then have "u_state h \<in> set (map u_state (pendingPromises ?c))" by simp
    then show "u_state h \<noteq> Some Threw" using inv unfolding coordinator_inv_def by metis
  qed
  have ub: "fst (unitBody e tk nm db st) = Returned ()"
    using unitBody_stats[of e tk nm db st] by (cases "unitBody e tk nm db st") simp
  have rf: "resolve_fault e \<and> getDataWithRetry_default e st = (Some d, st1, tr) \<longrightarrow>
        unitBody e tk nm db st =
          (Returned (), db,
           st1\<lparr>failedProcessing := failedProcessing st1 + 1, noRankingStocks := noRankingStocks st1 + 1\<rparr>)"
    using unitBody_resolve_fault by blast
  have sf: "\<not> resolve_fault e \<and> save_fault e = QueryFails
        \<and> getDataWithRetry_default e st = (Some d, st1, tr) \<and> \<not> invalidRanking e d \<longrightarrow>
        failedProcessing (snd (snd (unitBody e tk nm db st))) = failedProcessing st1 + 1
        \<and> failedSaves (snd (snd (unitBody e tk nm db st))) = failedSaves st1 + 1"
    using unitBody_save_fault by blast
  have sib: "j \<noteq> i \<and> j < length (pendingPromises c) \<longrightarrow>
        pendingPromises (coordinate c (UnitDone i)) ! j = pendingPromises c ! j"
    using coordinate_siblings by blast
  have link: "i < length (pendingPromises c) \<and> u_state (pendingPromises c ! i) = None \<longrightarrow>
        unitBody (u_env (pendingPromises c ! i)) (u_ticker (pendingPromises c ! i))
            (u_name (pendingPromises c ! i)) (co_store c) (co_stats c)
          = (Returned (), co_store (coordinate c (UnitDone i)), co_stats (coordinate c (UnitDone i)))
        \<and> u_state (pendingPromises (coordinate c (UnitDone i)) ! i) = Some (Returned ())"
    using coordinate_runs_unit by blast
  show ?thesis
    using rows coordinate_keeps_handles[of c ev] res rej nothrew ub index_unit_fulfils[of e tk nm db] rf sf sib link
    by blast
qed

theorem coordinator_completion_witness:
  "yielded run_one_fails = [(''AAPL'', ''Apple''), (''MSFT'', ''Microsoft'')]
   \<and> map handle_row (pendingPromises (processCSV run_one_fails (start empty_store)))
       = [(''AAPL'', ''Apple''), (''MSFT'', ''Microsoft'')]
   \<and> settled (processCSV run_one_fails (start empty_store)) = Some Resolved
   \<and> End \<in> set run_one_fails
   \<and> unitBody env_resolve_fails ''AAPL'' ''Apple'' empty_store stats0 =
       (Returned (), empty_store, stats0\<lparr>failedProcessing := 1, noRankingStocks := 1\<rparr>)"
proof -
  have r: "settled (processCSV run_one_fails (start empty_store)) = Some Resolved"
    by (simp add: run_one_fails_result)
  have y: "yielded run_one_fails = [(''AAPL'', ''Apple''), (''MSFT'', ''Microsoft'')]"
    by (simp add: run_one_fails_def)
  have f: "resolve_fault env_resolve_fails" by (simp add: env_resolve_fails_def)
  show ?thesis
    using coordinator_completion[of run_one_fails empty_store "start empty_store" End
        env_resolve_fails "''AAPL''" "''Apple''" empty_store stats0 buy_T stats0 "[Call 1]" 0 1]
      r y f fetch_buy(2)[of stats0]
    by (simp add: stats0_def)
qed

text \<open>
  \<^bold>\<open>Claim C8\<close> on a run of two rows whose rankings the provider returns, when a connection
  of the pool breaks while both units are in flight (the stream has ended, neither unit
  has finished, both rows are counted as processed). The client in use emits \<^verbatim>\<open>'error'\<close>,
  and neither the clients obtained by \<^verbatim>\<open>pool.connect()\<close> (lines 117, 156) nor the pool
  (line 105) are given a listener: the error reaches no \<^verbatim>\<open>catch\<close> of a unit, the process
  ends with status 1, both units are cut off, no failure is counted and no counter is
  printed. The failure of one row's store call aborts the sibling and the run.
\<close>

theorem lost_connection_aborts_the_run:
  "main True empty_store run_connection_lost = Some ([], 1)
   \<and> settled (processCSV two_rows_in_flight (start empty_store)) = None
   \<and> map u_state (pendingPromises (processCSV two_rows_in_flight (start empty_store))) = [None, None]
   \<and> co_stats (processCSV two_rows_in_flight (start empty_store)) = stats0\<lparr>totalProcessed := 2\<rparr>"
  by (simp add: main_def run_connection_lost_def two_rows_in_flight_def start_def settle_def
      promiseAll_def stats0_def)

text \<open>
  \<^bold>\<open>Claim C9\<close> as stated fails: the two failures the claim calls fatal end the process with
  the same success status as a run that completed. When \<^verbatim>\<open>setup()\<close> rejects, and when the
  parser stream emits an error, the process exits with status 0.
\<close>

theorem fatal_failures_exit_with_success:
  "main False empty_store [] = Some ([MainError, ProgramCompleted], 0)
   \<and> main True empty_store [Stream Error, PoolClosed] =
       Some ([ErrorProcessingCSV, ConnectionsClosed] @ summary stats0 @ [ProgramCompleted], 0)"
  by (simp add: main_def start_def settle_def)

text \<open>
  \<^bold>\<open>Claim C9, amended.\<close> When \<^verbatim>\<open>setup()\<close> rejects, \<^verbatim>\<open>main\<close> rejects at once: the error is
  printed, no counter is, and the status is 0. Otherwise, in a run in which no error
  event goes unhandled (no read error of the file under the parser, no lost connection),
  a process that exits does so with status 0, after \<^verbatim>\<open>pool.end()\<close> has resolved, having
  printed one line for the outcome of \<^verbatim>\<open>processCSV\<close>, the line of the closed pool and the
  eight counters (the seven of the claim and \<open>Failed processing\<close>), whether rows failed
  or not. The counters printed are those standing when \<^verbatim>\<open>pool.end()\<close> resolves: they
  include what the units still in flight counted after \<^verbatim>\<open>processCSV\<close> settled. \<^verbatim>\<open>processCSV\<close>
  is rejected, and \<open>Error processing CSV\<close> printed, only when the parser stream emitted
  an error, and it is rejected by such an error that comes before the end of the stream
  whatever the units in flight; no failure of a row is printed as a failure of the run,
  and the error of \<^verbatim>\<open>main\<close> is printed only when \<^verbatim>\<open>setup()\<close> rejected.
\<close>

theorem run_exit:
  "(\<not> setup_ok \<longrightarrow> main setup_ok db0 pes = Some ([MainError, ProgramCompleted], 0))
   \<and> (main True db0 pes = Some out \<and> ReadError \<notin> set pes \<and> ConnectionLost \<notin> set pes \<longrightarrow>
        snd out = 0
        \<and> (\<exists>first st. fst out = [first, ConnectionsClosed] @ summary st @ [ProgramCompleted]
              \<and> (first = CsvCompleted \<or> first = ErrorProcessingCSV)))
   \<and> (settled (processCSV pre (start db0)) = None
        \<and> settled (coordinate (processCSV pre (start db0)) ev) = Some s \<longrightarrow>
        main True db0 (map Stream pre @ Stream ev # map Stream mid @ PoolClosed # rest) =
          Some ([if s = Resolved then CsvCompleted else ErrorProcessingCSV, ConnectionsClosed]
                @ summary (co_stats (foldl coordinate (coordinate (processCSV pre (start db0)) ev) mid))
                @ [ProgramCompleted], 0))
   \<and> (End \<notin> set pre \<and> Error \<notin> set pre \<longrightarrow>
        main True db0 (map Stream pre @ Stream Error # map Stream mid @ PoolClosed # rest) =
          Some ([ErrorProcessingCSV, ConnectionsClosed]
                @ summary (co_stats (foldl coordinate (coordinate (processCSV pre (start db0)) Error) mid))
                @ [ProgramCompleted], 0))
   \<and> (main True db0 pes = Some out \<and> ErrorProcessingCSV \<in> set (fst out) \<longrightarrow> Stream Error \<in> set pes)
   \<and> (main setup_ok db0 pes = Some out \<longrightarrow> (MainError \<in> set (fst out) \<longleftrightarrow> \<not> setup_ok))
   \<and> summary st =
       [Counter ''Total processed'' (totalProcessed st),
        Counter ''Successful database operations'' (successfulSaves st),
        Counter ''Total inserts'' (totalInserts st),
        Counter ''Total updates'' (totalUpdates st),
        Counter ''Failed retrievals'' (failedRetrievals st),
        Counter ''Failed saves'' (failedSaves st),
        Counter ''Failed processing'' (failedProcessing st),
        Counter ''Stocks with no Zacks ranking'' (noRankingStocks st)]"
proof -
  have a: "\<not> setup_ok \<longrightarrow> main setup_ok db0 pes = Some ([MainError, ProgramCompleted], 0)"
    by (simp add: main_def)
  have b: "main True db0 pes = Some out \<and> ReadError \<notin> set pes \<and> ConnectionLost \<notin> set pes \<longrightarrow>
        snd out = 0
        \<and> (\<exists>first st. fst out = [first, ConnectionsClosed] @ summary st @ [ProgramCompleted]
              \<and> (first = CsvCompleted \<or> first = ErrorProcessingCSV))"
  proof
    assume h: "main True db0 pes = Some out \<and> ReadError \<notin> set pes \<and> ConnectionLost \<notin> set pes"
    then have "awaitCSV pes (start db0) = Some out" by (simp add: main_def)
    from awaitCSV_status[OF this] h
    obtain first st where "out = ([first, ConnectionsClosed] @ summary st @ [ProgramCompleted], 0)"
      "first = CsvCompleted \<or> first = ErrorProcessingCSV" by blast
    then show "snd out = 0
        \<and> (\<exists>first st. fst out = [first, ConnectionsClosed] @ summary st @ [ProgramCompleted]
              \<and> (first = CsvCompleted \<or> first = ErrorProcessingCSV))" by auto
  qed
  have c: "settled (processCSV pre (start db0)) = None
        \<and> settled (coordinate (processCSV pre (start db0)) ev) = Some s \<longrightarrow>
        main True db0 (map Stream pre @ Stream ev # map Stream mid @ PoolClosed # rest) =
          Some ([if s = Resolved then CsvCompleted else ErrorProcessingCSV, ConnectionsClosed]
                @ summary (co_stats (foldl coordinate (coordinate (processCSV pre (start db0)) ev) mid))
                @ [ProgramCompleted], 0)"
    using main_after_settlement by blast
  have d: "End \<notin> set pre \<and> Error \<notin> set pre \<longrightarrow>
        main True db0 (map Stream pre @ Stream Error # map Stream mid @ PoolClosed # rest) =
          Some ([ErrorProcessingCSV, ConnectionsClosed]
                @ summary (co_stats (foldl coordinate (coordinate (processCSV pre (start db0)) Error) mid))
                @ [ProgramCompleted], 0)"
  proof
    assume h: "End \<notin> set pre \<and> Error \<notin> set pre"
    then have o: "\<not> ended (processCSV pre (start db0)) \<and> settled (processCSV pre (start db0)) = None"
      by (intro processCSV_open) (simp_all add: start_def)
    then have r: "settled (coordinate (processCSV pre (start db0)) Error) = Some Rejected"
      by (simp add: settle_def)
    from main_after_settlement[OF conjunct2[OF o] r, of mid rest]
    show "main True db0 (map Stream pre @ Stream Error # map Stream mid @ PoolClosed # rest) =
          Some ([ErrorProcessingCSV, ConnectionsClosed]
                @ summary (co_stats (foldl coordinate (coordinate (processCSV pre (start db0)) Error) mid))
                @ [ProgramCompleted], 0)" by simp
  qed
  have e: "main True db0 pes = Some out \<and> ErrorProcessingCSV \<in> set (fst out) \<longrightarrow> Stream Error \<in> set pes"
  proof
    assume h: "main True db0 pes = Some out \<and> ErrorProcessingCSV \<in> set (fst out)"
    then have "awaitCSV pes (start db0) = Some out" by (simp add: main_def)
    from awaitCSV_rejected[OF this _ coordinator_inv_start] h
    show "Stream Error \<in> set pes" by (simp add: start_def)
  qed
  have f: "main setup_ok db0 pes = Some out \<longrightarrow> (MainError \<in> set (fst out) \<longleftrightarrow> \<not> setup_ok)"
    using awaitCSV_no_MainError[of pes "start db0" out]
    by (auto simp: main_def split: if_splits)
  have g: "summary st =
       [Counter ''Total processed'' (totalProcessed st),
        Counter ''Successful database operations'' (successfulSaves st),
        Counter ''Total inserts'' (totalInserts st),
        Counter ''Total updates'' (totalUpdates st),
        Counter ''Failed retrievals'' (failedRetrievals st),
        Counter ''Failed saves'' (failedSaves st),
        Counter ''Failed processing'' (failedProcessing st),
        Counter ''Stocks with no Zacks ranking'' (noRankingStocks st)]"
    by (simp add: summary_def)
  show ?thesis using a b c d e f g by blast
qed

text \<open>
  The amended claim on two runs that exit: a run of two rows that completes, the store
  refusing the resolver call of the first row; and a run whose parser stream fails while
  the unit of its one row is in flight, the unit finding the pool closing before the
  pool has closed (its failure is among the counters printed).
\<close>

theorem run_exit_witness:
  "main True empty_store (map Stream run_one_fails @ [PoolClosed]) =
     Some ([CsvCompleted, ConnectionsClosed,
            Counter ''Total processed'' 2,
            Counter ''Successful database operations'' 1,
            Counter ''Total inserts'' 1,
            Counter ''Total updates'' 0,
            Counter ''Failed retrievals'' 0,
            Counter ''Failed saves'' 0,
            Counter ''Failed processing'' 1,
            Counter ''Stocks with no Zacks ranking'' 1,
            ProgramCompleted], 0)
   \<and> main True empty_store run_stream_error =
       Some ([ErrorProcessingCSV, ConnectionsClosed,
            Counter ''Total processed'' 1,
            Counter ''Successful database operations'' 0,
            Counter ''Total inserts'' 0,
            Counter ''Total updates'' 0,
            Counter ''Failed retrievals'' 0,
            Counter ''Failed saves'' 0,
            Counter ''Failed processing'' 1,
            Counter ''Stocks with no Zacks ranking'' 1,
            ProgramCompleted], 0)
   \<and> main False empty_store run_stream_error = Some ([MainError, ProgramCompleted], 0)"
proof -
  let ?pre = "[Data env_resolve_fails ''AAPL'' ''Apple'', Data env_buy ''MSFT'' ''Microsoft'', End,
               UnitDone 0]"
  let ?row = "[Data env_resolve_fails ''AAPL'' ''Apple'']"
  have s: "resolve_fault env_resolve_fails" "\<not> resolve_fault env_buy" "save_fault env_buy = NoFault"
    by (simp_all add: env_resolve_fails_def env_buy_def)
  have v: "\<not> invalidRanking env_buy buy_T"
    by (simp add: invalidRanking_def buy_T_def)
  define c where "c = processCSV ?pre (start empty_store)"
  define d where "d = processCSV ?row (start empty_store)"
  have split: "run_one_fails = ?pre @ [UnitDone 1]"
    by (simp add: run_one_fails_def)
  have p: "settled c = None"
    unfolding c_def
    by (simp add: start_def settle_def promiseAll_def unitBody_def fetch_buy getOrCreateStockId_def s
        stats0_def Let_def)
  have "processCSV run_one_fails (start empty_store) = processCSV [UnitDone 1] c"
    unfolding split processCSV_append c_def ..
  then have eq: "coordinate c (UnitDone 1) = processCSV run_one_fails (start empty_store)"
    using p by simp
  have r: "settled (coordinate c (UnitDone 1)) = Some Resolved"
    unfolding eq run_one_fails_result by simp
  have t: "co_stats (coordinate c (UnitDone 1)) =
      stats0\<lparr>totalProcessed := 2, successfulSaves := 1, noRankingStocks := 1,
             totalInserts := 1, failedProcessing := 1\<rparr>"
    unfolding eq run_one_fails_result by simp
  have m1: "map Stream run_one_fails @ [PoolClosed]
      = map Stream ?pre @ Stream (UnitDone 1) # map Stream [] @ PoolClosed # []"
    by (simp add: run_one_fails_def)
  have q: "End \<notin> set ?row \<and> Error \<notin> set ?row"
    by simp
  have u: "co_stats (foldl coordinate (coordinate d Error) [UnitDone 0])
      = stats0\<lparr>totalProcessed := 1, failedProcessing := 1, noRankingStocks := 1\<rparr>"
    unfolding d_def
    by (simp add: start_def settle_def promiseAll_def unitBody_def fetch_buy getOrCreateStockId_def s
        stats0_def Let_def)
  have m2: "run_stream_error = map Stream ?row @ Stream Error # map Stream [UnitDone 0] @ PoolClosed # []"
    by (simp add: run_stream_error_def)
  have one: "main True empty_store (map Stream run_one_fails @ [PoolClosed]) =
      Some ([CsvCompleted, ConnectionsClosed]
            @ summary (stats0\<lparr>totalProcessed := 2, successfulSaves := 1, noRankingStocks := 1,
                 totalInserts := 1, failedProcessing := 1\<rparr>) @ [ProgramCompleted], 0)"
    unfolding m1
    using run_exit[where ?db0.0 = empty_store and pre = ?pre and ev = "UnitDone 1" and s = Resolved
        and mid = "[]" and rest = "[]", folded c_def] p r t
    by simp
  have two: "main True empty_store run_stream_error =
      Some ([ErrorProcessingCSV, ConnectionsClosed]
            @ summary (stats0\<lparr>totalProcessed := 1, failedProcessing := 1, noRankingStocks := 1\<rparr>)
            @ [ProgramCompleted], 0)"
    unfolding m2
    using run_exit[where ?db0.0 = empty_store and pre = ?row and mid = "[UnitDone 0]" and rest = "[]",
        folded d_def] q u
    by simp
  have three: "main False empty_store run_stream_error = Some ([MainError, ProgramCompleted], 0)"
    using run_exit[where setup_ok = False and ?db0.0 = empty_store and pes = run_stream_error]
    by simp
  show ?thesis
    using one two three by (simp add: summary_def stats0_def)
qed

end
